theory Spec2Isabelle
  imports Main "HOL-Library.AList"
begin

section \<open>FredIRC: the message processor and the connection\<close>

text \<open>
  A shallow embedding of \<^verbatim>\<open>fredirc/processor.py\<close> (class MessageProcessor) and
  \<^verbatim>\<open>fredirc/connection.py\<close> (class Connection). Python mutates objects in place and
  raises exceptions; here every method takes the object and returns the exception raised
  (if any) together with the object as it is at that moment, so that what a method changed
  before it raised stays visible.
\<close>

subsection \<open>Exceptions and Python primitives\<close>

datatype exn =
    MessageHandlingError string
  | ParserError string
  | NotConnectedError string
  | AssertionError
  | IndexError
  | KeyError
  | ValueError
  | AttributeError
  | UnicodeEncodeError

text \<open>\<^verbatim>\<open>xs[i]\<close> for a literal index \<open>i \<ge> 0\<close>: IndexError out of range.\<close>

definition index :: "'a list \<Rightarrow> nat \<Rightarrow> exn + 'a" where
  "index xs i = (if i < length xs then Inr (xs ! i) else Inl IndexError)"

text \<open>\<^verbatim>\<open>s.startswith(c)\<close> for a one-character string.\<close>

definition startswith :: "string \<Rightarrow> char \<Rightarrow> bool" where
  "startswith s c = (case s of [] \<Rightarrow> False | x # _ \<Rightarrow> x = c)"

text \<open>\<^verbatim>\<open>sep.join(xs)\<close>.\<close>

fun join :: "string \<Rightarrow> string list \<Rightarrow> string" where
  "join sep [] = []"
| "join sep [x] = x"
| "join sep (x # y # ys) = x @ sep @ join sep (y # ys)"

definition is_digit :: "char \<Rightarrow> bool" where
  "is_digit c = (c \<in> set ''0123456789'')"

text \<open>
  \<^verbatim>\<open>re.compile('[0-9][0-9][0-9]').match(command)\<close>: \<^verbatim>\<open>match\<close> anchors at the start of
  the string only, so any command that begins with three digits matches.
\<close>

definition three_digits_match :: "string \<Rightarrow> bool" where
  "three_digits_match command =
     (case command of a # b # c # _ \<Rightarrow> is_digit a \<and> is_digit b \<and> is_digit c | _ \<Rightarrow> False)"

definition digit_value :: "char \<Rightarrow> nat" where
  "digit_value c = of_char c - 48"

text \<open>
  \<^verbatim>\<open>int(command)\<close> on a string of decimal digits; any other character makes it raise
  ValueError (signs, surrounding blanks and digit-group underscores, which Python's
  \<^verbatim>\<open>int\<close> also reads, do not occur in a command token and are left out).
\<close>

definition python_int :: "string \<Rightarrow> exn + nat" where
  "python_int s =
     (if s \<noteq> [] \<and> list_all is_digit s
      then Inr (foldl (\<lambda>n c. 10 * n + digit_value c) 0 s)
      else Inl ValueError)"

text \<open>Truthiness of an attribute that is a string or \<^verbatim>\<open>None\<close>.\<close>

definition truthy :: "string option \<Rightarrow> bool" where
  "truthy v = (case v of None \<Rightarrow> False | Some s \<Rightarrow> s \<noteq> [])"

subsection \<open>The modules the processor imports\<close>

text \<open>
  Modelled from the spec: class ChannelInfo of \<^verbatim>\<open>fredirc/info.py\<close>, which is not among the
  sources. The spec gives it a name, an optional topic that is absent until one arrives,
  a set of member nicknames, and the three mutators the processor calls.
\<close>

record channel_info =
  name :: string
  topic :: "string option"
  nicks :: "string set"

definition ChannelInfo :: "string \<Rightarrow> channel_info" where
  "ChannelInfo n = \<lparr>name = n, topic = None, nicks = {}\<rparr>"

definition ChannelInfo_add_nicks :: "string list \<Rightarrow> channel_info \<Rightarrow> channel_info" where
  "ChannelInfo_add_nicks ns ci = ci\<lparr>nicks := nicks ci \<union> set ns\<rparr>"

definition ChannelInfo_remove_nick :: "string \<Rightarrow> channel_info \<Rightarrow> channel_info" where
  "ChannelInfo_remove_nick n ci = ci\<lparr>nicks := nicks ci - {n}\<rparr>"

definition ChannelInfo_set_topic :: "string \<Rightarrow> channel_info \<Rightarrow> channel_info" where
  "ChannelInfo_set_topic t ci = ci\<lparr>topic := Some t\<rparr>"

text \<open>
  Modelled from the spec: the constants of \<^verbatim>\<open>fredirc/messages.py\<close> (classes Cmd, Rpl and
  ChannelMode), which is not among the sources. The command names are the spec's; the
  numeric codes and the mode letters are those of the IRC protocol (RFC 2812).
\<close>

definition Cmd_PING :: string where "Cmd_PING = ''PING''"
definition Cmd_PRIVMSG :: string where "Cmd_PRIVMSG = ''PRIVMSG''"
definition Cmd_JOIN :: string where "Cmd_JOIN = ''JOIN''"
definition Cmd_PART :: string where "Cmd_PART = ''PART''"
definition Cmd_MODE :: string where "Cmd_MODE = ''MODE''"
definition Cmd_KICK :: string where "Cmd_KICK = ''KICK''"
definition Cmd_NICK :: string where "Cmd_NICK = ''NICK''"
definition Cmd_TOPIC :: string where "Cmd_TOPIC = ''TOPIC''"
definition Cmd_QUIT :: string where "Cmd_QUIT = ''QUIT''"

definition Rpl_WELCOME :: nat where "Rpl_WELCOME = 1"
definition Rpl_TOPIC :: nat where "Rpl_TOPIC = 332"
definition Rpl_NAMREPLY :: nat where "Rpl_NAMREPLY = 353"
definition Rpl_ENDOFNAMES :: nat where "Rpl_ENDOFNAMES = 366"

definition ChannelMode_OPERATOR :: string where "ChannelMode_OPERATOR = ''o''"
definition ChannelMode_VOICE :: string where "ChannelMode_VOICE = ''v''"

text \<open>
  What the functions of \<^verbatim>\<open>fredirc/parsing.py\<close> return: a message target with its
  \<^verbatim>\<open>nick\<close> and \<^verbatim>\<open>channel\<close> attributes, and a mode change with \<^verbatim>\<open>mode\<close>,
  \<^verbatim>\<open>added\<close> and \<^verbatim>\<open>params\<close>.
\<close>

record message_target =
  target_nick :: "string option"
  target_channel :: "string option"

record mode_change =
  mode :: string
  added :: bool
  mode_params :: "string list"

text \<open>
  The tokenizer \<^verbatim>\<open>fredirc/parsing.py\<close> and the table \<^verbatim>\<open>Err.ERROR_PARAMETERS\<close> are not
  among the sources: the processor takes them as parameters. Each parser may raise;
  \<^verbatim>\<open>parse_user_prefix\<close> stands for \<^verbatim>\<open>parsing.parse_user_prefix(prefix)[0]\<close>, the nick,
  which is all the processor reads of its result; \<^verbatim>\<open>parse_name_list\<close> returns the pair
  of \<^verbatim>\<open>channel_name\<close> and \<^verbatim>\<open>nicks\<close>.
\<close>

record modules =
  parse :: "string \<Rightarrow> exn + (string option \<times> string \<times> string list)"
  parse_user_prefix :: "string option \<Rightarrow> exn + string"
  parse_message_target :: "string \<Rightarrow> exn + message_target list"
  parse_channel_mode_params :: "string list \<Rightarrow> exn + mode_change list"
  parse_name_list :: "string list \<Rightarrow> exn + (string \<times> string list)"
  ERROR_PARAMETERS :: "nat \<rightharpoonup> string list"

subsection \<open>The client state, the handler and the processor\<close>

text \<open>
  The attributes of the client state that the processor reads and writes.
  \<^verbatim>\<open>operator_in\<close> and \<^verbatim>\<open>has_voice_in\<close> are Python lists: the processor calls
  \<^verbatim>\<open>append\<close> and \<^verbatim>\<open>remove\<close> on them.
\<close>

record client_state =
  connected :: bool
  registered :: bool
  server :: "string option"
  nick :: string
  channels :: "string \<rightharpoonup> channel_info"
  operator_in :: "string list"
  has_voice_in :: "string list"

text \<open>One constructor per method of the handler that the processor calls.\<close>

datatype event =
    handle_unhandled_message string
  | handle_ping string
  | handle_private_message string string
  | handle_channel_message string string string
  | handle_response nat string
  | handle_register
  | handle_own_join string
  | handle_error nat "(string \<times> string) list"
  | handle_join string string
  | handle_own_part string
  | handle_part string string "string option"
  | handle_own_nick_change string string
  | handle_nick_change string string
  | handle_own_got_op string string
  | handle_got_op string string string
  | handle_own_lost_op string string
  | handle_lost_op string string string
  | handle_own_got_voice string string
  | handle_got_voice string string string
  | handle_own_lost_voice string string
  | handle_lost_voice string string string
  | handle_own_kick string string "string option"
  | handle_kick string string string "string option"
  | handle_quit string "string option"

text \<open>
  The processor object: the shared client state, its own table of pending channels, and
  the calls it has made on the handler, oldest first. The handler is the application's:
  its methods are taken to return normally. Calls on the logger change nothing the
  processor reads and are left out.
\<close>

record processor =
  state :: client_state
  pending_channel_info :: "string \<rightharpoonup> channel_info"
  handler_calls :: "event list"

type_synonym outcome = "exn option \<times> processor"

definition call :: "event \<Rightarrow> processor \<Rightarrow> processor" where
  "call ev p = p\<lparr>handler_calls := handler_calls p @ [ev]\<rparr>"

definition set_channels :: "(string \<rightharpoonup> channel_info) \<Rightarrow> processor \<Rightarrow> processor" where
  "set_channels m p = p\<lparr>state := (state p)\<lparr>channels := m\<rparr>\<rparr>"

definition set_pending :: "(string \<rightharpoonup> channel_info) \<Rightarrow> processor \<Rightarrow> processor" where
  "set_pending m p = p\<lparr>pending_channel_info := m\<rparr>"

text \<open>\<^verbatim>\<open>MessageProcessor.__init__\<close>.\<close>

definition init :: "client_state \<Rightarrow> processor" where
  "init st = \<lparr>state = st, pending_channel_info = Map.empty, handler_calls = []\<rparr>"

text \<open>The test both \<^verbatim>\<open>_set_topic\<close> and the ENDOFNAMES branch make on a channel name.\<close>

definition channel_prefixed :: "string \<Rightarrow> bool" where
  "channel_prefixed channel =
     (startswith channel CHR ''#'' \<or> startswith channel CHR ''+'' \<or> startswith channel CHR ''&'')"

definition process_ping :: "string list \<Rightarrow> string \<Rightarrow> processor \<Rightarrow> outcome" where
  "process_ping params raw_msg p =
     (case index params 0 of
        Inl e \<Rightarrow> (Some e, p)
      | Inr x \<Rightarrow> (None, call (handle_ping x) p))"

text \<open>The loop over the targets of \<^verbatim>\<open>_process_privmsg\<close>.\<close>

fun privmsg_targets :: "string \<Rightarrow> string \<Rightarrow> message_target list \<Rightarrow> processor \<Rightarrow> processor" where
  "privmsg_targets msg sender [] p = p"
| "privmsg_targets msg sender (t # ts) p =
     privmsg_targets msg sender ts
       (if truthy (target_nick t) \<and> target_nick t = Some (nick (state p))
        then call (handle_private_message msg sender) p
        else (case target_channel t of
                None \<Rightarrow> p
              | Some c \<Rightarrow>
                  if c \<noteq> [] \<and> channels (state p) c \<noteq> None
                  then call (handle_channel_message c msg sender) p
                  else p))"

definition process_privmsg :: "modules \<Rightarrow> string option \<Rightarrow> string list \<Rightarrow> string \<Rightarrow> processor \<Rightarrow> outcome" where
  "process_privmsg M prefix params raw_msg p =
     (if length params \<noteq> 2 then (Some (MessageHandlingError raw_msg), p)
      else
        (case (if truthy prefix then map_sum id Some (parse_user_prefix M prefix) else Inr None) of
           Inl e \<Rightarrow> (Some e, p)
         | Inr sender \<Rightarrow>
             (case sender of
                None \<Rightarrow> (None, p)
              | Some s \<Rightarrow>
                  if s \<noteq> [] \<and> s \<noteq> nick (state p) then
                    (case parse_message_target M (params ! 0) of
                       Inl e \<Rightarrow> (Some e, p)
                     | Inr targets \<Rightarrow> (None, privmsg_targets (params ! 1) s targets p))
                  else (None, p))))"

text \<open>\<^verbatim>\<open>MessageProcessor._set_topic\<close>.\<close>

definition set_topic :: "string \<Rightarrow> string \<Rightarrow> processor \<Rightarrow> processor" where
  "set_topic channel t p =
     (if channel_prefixed channel then
        (case pending_channel_info p channel of
           Some ci \<Rightarrow> set_pending ((pending_channel_info p)(channel \<mapsto> ChannelInfo_set_topic t ci)) p
         | None \<Rightarrow>
             (case channels (state p) channel of
                Some ci \<Rightarrow> set_channels ((channels (state p))(channel \<mapsto> ChannelInfo_set_topic t ci)) p
              | None \<Rightarrow> p))
      else p)"

definition process_numeric_reply ::
  "modules \<Rightarrow> nat \<Rightarrow> string option \<Rightarrow> string list \<Rightarrow> string \<Rightarrow> processor \<Rightarrow> outcome" where
  "process_numeric_reply M num prefix params raw_msg p0 =
     (let p = call (handle_response num raw_msg) p0 in
      if num = Rpl_WELCOME then
        (let p1 = p\<lparr>state := (state p)\<lparr>registered := True, server := prefix\<rparr>\<rparr> in
         case index params 0 of
           Inl e \<Rightarrow> (Some e, p1)
         | Inr n \<Rightarrow> (None, call handle_register (p1\<lparr>state := (state p1)\<lparr>nick := n\<rparr>\<rparr>)))
      else if num = Rpl_TOPIC then
        (case index params 1 of
           Inl e \<Rightarrow> (Some e, p)
         | Inr c \<Rightarrow>
             (case index params 2 of
                Inl e \<Rightarrow> (Some e, p)
              | Inr t \<Rightarrow> (None, set_topic c t p)))
      else if num = Rpl_NAMREPLY then
        (case parse_name_list M params of
           Inl e \<Rightarrow> (Some e, p)
         | Inr (channel_name, ns) \<Rightarrow>
             (case pending_channel_info p channel_name of
                Some ci \<Rightarrow>
                  (None, set_pending ((pending_channel_info p)(channel_name \<mapsto> ChannelInfo_add_nicks ns ci)) p)
              | None \<Rightarrow> (None, p)))
      else if num = Rpl_ENDOFNAMES then
        (case index params 1 of
           Inl e \<Rightarrow> (Some e, p)
         | Inr channel \<Rightarrow>
             if channel_prefixed channel then
               (case pending_channel_info p channel of
                  Some channel_info \<Rightarrow>
                    (None,
                     call (handle_own_join channel)
                       (set_channels ((channels (state p))(channel \<mapsto> channel_info))
                          (set_pending ((pending_channel_info p)(channel := None)) p)))
                | None \<Rightarrow> (None, p))
             else (None, p))
      else (None, p))"

definition error_kwargs :: "string list \<Rightarrow> string list \<Rightarrow> (string \<times> string) list" where
  "error_kwargs param_names params =
     (if length params \<noteq> length param_names
      then fold (\<lambda>name kwargs.
                   AList.update name (if name = ''message'' then join '' '' params else '''') kwargs)
             param_names []
      else fold (\<lambda>(name, v) kwargs. AList.update name v kwargs) (zip param_names params) [])"

definition process_numeric_error :: "modules \<Rightarrow> nat \<Rightarrow> string list \<Rightarrow> string \<Rightarrow> processor \<Rightarrow> outcome" where
  "process_numeric_error M num params0 raw_msg p =
     (let params = drop 1 params0 in
      case ERROR_PARAMETERS M num of
        None \<Rightarrow> (Some KeyError, p)
      | Some param_names \<Rightarrow> (None, call (handle_error num (error_kwargs param_names params)) p))"

definition process_join :: "modules \<Rightarrow> string option \<Rightarrow> string list \<Rightarrow> processor \<Rightarrow> outcome" where
  "process_join M prefix params p =
     (case parse_user_prefix M prefix of
        Inl e \<Rightarrow> (Some e, p)
      | Inr n \<Rightarrow>
          (case index params 0 of
             Inl e \<Rightarrow> (Some e, p)
           | Inr channel \<Rightarrow>
               if nick (state p) = n then
                 (if channels (state p) channel = None
                  then (None, set_pending ((pending_channel_info p)(channel \<mapsto> ChannelInfo channel)) p)
                  else (None, p))
               else
                 (case channels (state p) channel of
                    None \<Rightarrow> (Some KeyError, p)
                  | Some ci \<Rightarrow>
                      (None,
                       call (handle_join channel n)
                         (set_channels ((channels (state p))(channel \<mapsto> ChannelInfo_add_nicks [n] ci)) p)))))"

definition process_part :: "modules \<Rightarrow> string option \<Rightarrow> string list \<Rightarrow> processor \<Rightarrow> outcome" where
  "process_part M prefix params p =
     (case parse_user_prefix M prefix of
        Inl e \<Rightarrow> (Some e, p)
      | Inr n \<Rightarrow>
          (case index params 0 of
             Inl e \<Rightarrow> (Some e, p)
           | Inr channel \<Rightarrow>
               if nick (state p) = n then
                 (None,
                  call (handle_own_part channel)
                    (if channels (state p) channel \<noteq> None
                     then set_channels ((channels (state p))(channel := None)) p
                     else p))
               else
                 (case channels (state p) channel of
                    None \<Rightarrow> (Some KeyError, p)
                  | Some ci \<Rightarrow>
                      (None,
                       call (handle_part channel n (if length params > 1 then Some (params ! 1) else None))
                         (set_channels ((channels (state p))(channel \<mapsto> ChannelInfo_remove_nick n ci)) p)))))"

definition rename_nick :: "string \<Rightarrow> string \<Rightarrow> channel_info \<Rightarrow> channel_info" where
  "rename_nick old_nick new_nick channel_info =
     (if old_nick \<in> nicks channel_info
      then ChannelInfo_add_nicks [new_nick] (ChannelInfo_remove_nick old_nick channel_info)
      else channel_info)"

definition process_nick :: "modules \<Rightarrow> string option \<Rightarrow> string list \<Rightarrow> processor \<Rightarrow> outcome" where
  "process_nick M prefix params p =
     (case parse_user_prefix M prefix of
        Inl e \<Rightarrow> (Some e, p)
      | Inr old_nick \<Rightarrow>
          (case index params 0 of
             Inl e \<Rightarrow> (Some e, p)
           | Inr new_nick \<Rightarrow>
               (let p1 = set_channels (\<lambda>c. map_option (rename_nick old_nick new_nick) (channels (state p) c)) p in
                if old_nick = nick (state p1)
                then (None, call (handle_own_nick_change old_nick new_nick)
                              (p1\<lparr>state := (state p1)\<lparr>nick := new_nick\<rparr>\<rparr>))
                else (None, call (handle_nick_change old_nick new_nick) p1))))"

text \<open>The body of the loop of \<^verbatim>\<open>_process_channel_mode\<close>, for one mode change.\<close>

definition channel_mode_change :: "string \<Rightarrow> string \<Rightarrow> mode_change \<Rightarrow> processor \<Rightarrow> outcome" where
  "channel_mode_change channel initiator mc p =
     (if mode mc = ChannelMode_OPERATOR then
        (case index (mode_params mc) 0 of
           Inl e \<Rightarrow> (Some e, p)
         | Inr user \<Rightarrow>
             if added mc then
               (if user = nick (state p)
                then (None, call (handle_own_got_op channel initiator)
                              (p\<lparr>state := (state p)\<lparr>operator_in := operator_in (state p) @ [channel]\<rparr>\<rparr>))
                else (None, call (handle_got_op channel user initiator) p))
             else
               (if user = nick (state p)
                then (if channel \<in> set (operator_in (state p))
                      then (None, call (handle_own_lost_op channel initiator)
                                    (p\<lparr>state := (state p)\<lparr>operator_in := remove1 channel (operator_in (state p))\<rparr>\<rparr>))
                      else (Some ValueError, p))
                else (None, call (handle_lost_op channel user initiator) p)))
      else if mode mc = ChannelMode_VOICE then
        (case index (mode_params mc) 0 of
           Inl e \<Rightarrow> (Some e, p)
         | Inr user \<Rightarrow>
             if added mc then
               (if user = nick (state p)
                then (None, call (handle_own_got_voice channel initiator)
                              (p\<lparr>state := (state p)\<lparr>has_voice_in := has_voice_in (state p) @ [channel]\<rparr>\<rparr>))
                else (None, call (handle_got_voice channel user initiator) p))
             else
               (if user = nick (state p)
                then (if channel \<in> set (has_voice_in (state p))
                      then (None, call (handle_own_lost_voice channel initiator)
                                    (p\<lparr>state := (state p)\<lparr>has_voice_in := remove1 channel (has_voice_in (state p))\<rparr>\<rparr>))
                      else (Some ValueError, p))
                else (None, call (handle_lost_voice channel user initiator) p)))
      else (None, p))"

fun channel_mode_changes :: "string \<Rightarrow> string \<Rightarrow> mode_change list \<Rightarrow> processor \<Rightarrow> outcome" where
  "channel_mode_changes channel initiator [] p = (None, p)"
| "channel_mode_changes channel initiator (mc # mcs) p =
     (case channel_mode_change channel initiator mc p of
        (Some e, p') \<Rightarrow> (Some e, p')
      | (None, p') \<Rightarrow> channel_mode_changes channel initiator mcs p')"

definition process_channel_mode :: "modules \<Rightarrow> string \<Rightarrow> string list \<Rightarrow> string \<Rightarrow> processor \<Rightarrow> outcome" where
  "process_channel_mode M channel params initiator p =
     (case parse_channel_mode_params M params of
        Inl e \<Rightarrow> (Some e, p)
      | Inr mode_changes \<Rightarrow> channel_mode_changes channel initiator mode_changes p)"

definition process_mode :: "modules \<Rightarrow> string option \<Rightarrow> string list \<Rightarrow> string \<Rightarrow> processor \<Rightarrow> outcome" where
  "process_mode M prefix params raw_msg p =
     (case index params 0 of
        Inl e \<Rightarrow> (Some e, p)
      | Inr t \<Rightarrow>
          (case parse_message_target M t of
             Inl e \<Rightarrow> (Some e, p)
           | Inr targets \<Rightarrow>
               (case index targets 0 of
                  Inl e \<Rightarrow> (Some e, p)
                | Inr target \<Rightarrow>
                    (case parse_user_prefix M prefix of
                       Inl e \<Rightarrow> (Some e, p)
                     | Inr initiator \<Rightarrow>
                         (case target_channel target of
                            Some c \<Rightarrow>
                              if c \<noteq> [] then process_channel_mode M c (drop 1 params) initiator p
                              else (Some (MessageHandlingError raw_msg), p)
                          | None \<Rightarrow> (Some (MessageHandlingError raw_msg), p))))))"

definition process_kick :: "modules \<Rightarrow> string option \<Rightarrow> string list \<Rightarrow> processor \<Rightarrow> outcome" where
  "process_kick M prefix params p =
     (if length params < 2 then (None, p)
      else
        (let channel = params ! 0; n = params ! 1 in
         case parse_user_prefix M prefix of
           Inl e \<Rightarrow> (Some e, p)
         | Inr initiator \<Rightarrow>
             (let reason = (if length params > 2 then Some (params ! 2) else None) in
              if n = nick (state p) then
                (None,
                 call (handle_own_kick channel initiator reason)
                   (if channels (state p) channel \<noteq> None
                    then set_channels ((channels (state p))(channel := None)) p
                    else p))
              else
                (case channels (state p) channel of
                   None \<Rightarrow> (Some KeyError, p)
                 | Some ci \<Rightarrow>
                     (None,
                      call (handle_kick channel n initiator reason)
                        (set_channels ((channels (state p))(channel \<mapsto> ChannelInfo_remove_nick n ci)) p))))))"

definition process_topic :: "string option \<Rightarrow> string list \<Rightarrow> processor \<Rightarrow> outcome" where
  "process_topic prefix params p =
     (case index params 0 of
        Inl e \<Rightarrow> (Some e, p)
      | Inr c \<Rightarrow>
          (case index params 1 of
             Inl e \<Rightarrow> (Some e, p)
           | Inr t \<Rightarrow> (None, set_topic c t p)))"

definition forget_nick :: "string \<Rightarrow> channel_info \<Rightarrow> channel_info" where
  "forget_nick n channel_info =
     (if n \<in> nicks channel_info then ChannelInfo_remove_nick n channel_info else channel_info)"

definition process_quit :: "modules \<Rightarrow> string option \<Rightarrow> string list \<Rightarrow> processor \<Rightarrow> outcome" where
  "process_quit M prefix params p =
     (case parse_user_prefix M prefix of
        Inl e \<Rightarrow> (Some e, p)
      | Inr n \<Rightarrow>
          (let quit_message = (if length params > 0 then Some (params ! 0) else None) in
           (None,
            call (handle_quit n quit_message)
              (set_channels (\<lambda>c. map_option (forget_nick n) (channels (state p) c)) p))))"

text \<open>The body of the \<^verbatim>\<open>try\<close> block of \<^verbatim>\<open>process\<close>.\<close>

definition dispatch :: "modules \<Rightarrow> string \<Rightarrow> processor \<Rightarrow> outcome" where
  "dispatch M message p =
     (case parse M message of
        Inl e \<Rightarrow> (Some e, p)
      | Inr (prefix, command, params) \<Rightarrow>
          if three_digits_match command then
            (case python_int command of
               Inl e \<Rightarrow> (Some e, p)
             | Inr numeric_reply \<Rightarrow>
                 if numeric_reply \<le> 399 then process_numeric_reply M numeric_reply prefix params message p
                 else if 400 \<le> numeric_reply \<and> numeric_reply \<le> 599
                 then process_numeric_error M numeric_reply params message p
                 else (Some (MessageHandlingError message), p))
          else if command = Cmd_PING then process_ping params message p
          else if command = Cmd_PRIVMSG then process_privmsg M prefix params message p
          else if command = Cmd_JOIN then process_join M prefix params p
          else if command = Cmd_PART then process_part M prefix params p
          else if command = Cmd_MODE then process_mode M prefix params message p
          else if command = Cmd_KICK then process_kick M prefix params p
          else if command = Cmd_NICK then process_nick M prefix params p
          else if command = Cmd_TOPIC then process_topic prefix params p
          else if command = Cmd_QUIT then process_quit M prefix params p
          else (Some (MessageHandlingError message), p))"

text \<open>
  \<^verbatim>\<open>MessageProcessor.process\<close>: the assertion, the \<^verbatim>\<open>try\<close> block and its two
  \<^verbatim>\<open>except\<close> clauses. \<^verbatim>\<open>str(e)\<close> of a MessageHandlingError is the text it was raised
  with. Every other exception leaves \<^verbatim>\<open>process\<close>.
\<close>

definition process :: "modules \<Rightarrow> string \<Rightarrow> processor \<Rightarrow> outcome" where
  "process M message p =
     (if \<not> connected (state p) then (Some AssertionError, p)
      else
        (case dispatch M message p of
           (Some (MessageHandlingError e), p') \<Rightarrow> (None, call (handle_unhandled_message e) p')
         | (Some (ParserError e), p') \<Rightarrow> (None, p')
         | r \<Rightarrow> r))"

text \<open>
  A sequence of messages, each handed to \<^verbatim>\<open>process\<close> in turn. The processor is fed the
  next message whether or not the previous one raised: what holds of every such run
  holds of the runs a connection can produce.
\<close>

fun process_all :: "modules \<Rightarrow> string list \<Rightarrow> processor \<Rightarrow> processor" where
  "process_all M [] p = p"
| "process_all M (m # ms) p = process_all M ms (snd (process M m p))"

subsection \<open>A tokenizer for the wire format\<close>

text \<open>
  Modelled from the spec: the tokenizer \<^verbatim>\<open>fredirc/parsing.py\<close>, which is not among the
  sources. The spec's wire format is \<^verbatim>\<open>[:prefix ]command param1 param2 ... [:trailing param]\<close>,
  a user prefix is \<^verbatim>\<open>nick!user@host\<close>, a target list is separated by commas and a
  target is a channel when it begins with a channel prefix character. The theorems below
  hold for every tokenizer; this one gives them concrete messages to run on.
\<close>

fun words_from :: "string \<Rightarrow> string \<Rightarrow> string list" where
  "words_from acc [] = (if acc = [] then [] else [acc])"
| "words_from acc (c # cs) =
     (if c = CHR '' '' then (if acc = [] then words_from [] cs else acc # words_from [] cs)
      else if c = CHR '':'' \<and> acc = [] then [cs]
      else words_from (acc @ [c]) cs)"

fun split_on :: "char \<Rightarrow> string \<Rightarrow> string \<Rightarrow> string list" where
  "split_on sep acc [] = [acc]"
| "split_on sep acc (c # cs) =
     (if c = sep then acc # split_on sep [] cs else split_on sep (acc @ [c]) cs)"

definition spec_parse :: "string \<Rightarrow> exn + (string option \<times> string \<times> string list)" where
  "spec_parse line =
     (let (prefix, rest) =
            (case line of
               c # cs \<Rightarrow>
                 if c = CHR '':''
                 then (Some (takeWhile (\<lambda>x. x \<noteq> CHR '' '') cs), dropWhile (\<lambda>x. x \<noteq> CHR '' '') cs)
                 else (None, line)
             | [] \<Rightarrow> (None, line))
      in case words_from [] rest of
           [] \<Rightarrow> Inl (ParserError line)
         | command # params \<Rightarrow> Inr (prefix, command, params))"

definition spec_parse_user_prefix :: "string option \<Rightarrow> exn + string" where
  "spec_parse_user_prefix prefix =
     (case prefix of
        None \<Rightarrow> Inl AttributeError
      | Some s \<Rightarrow> Inr (takeWhile (\<lambda>x. x \<noteq> CHR ''!'' \<and> x \<noteq> CHR ''@'') s))"

definition spec_target :: "string \<Rightarrow> message_target" where
  "spec_target t =
     (if channel_prefixed t then \<lparr>target_nick = None, target_channel = Some t\<rparr>
      else \<lparr>target_nick = Some t, target_channel = None\<rparr>)"

definition spec_parse_message_target :: "string \<Rightarrow> exn + message_target list" where
  "spec_parse_message_target s = Inr (map spec_target (split_on CHR '','' [] s))"

text \<open>
  A mode string such as \<^verbatim>\<open>+o-v\<close> followed by its arguments: each mode letter takes
  the next argument.
\<close>

fun spec_mode_changes :: "bool \<Rightarrow> string \<Rightarrow> string list \<Rightarrow> mode_change list" where
  "spec_mode_changes a [] args = []"
| "spec_mode_changes a (c # cs) args =
     (if c = CHR ''+'' then spec_mode_changes True cs args
      else if c = CHR ''-'' then spec_mode_changes False cs args
      else \<lparr>mode = [c], added = a, mode_params = take 1 args\<rparr> # spec_mode_changes a cs (drop 1 args))"

definition spec_parse_channel_mode_params :: "string list \<Rightarrow> exn + mode_change list" where
  "spec_parse_channel_mode_params params =
     (case params of
        [] \<Rightarrow> Inl (ParserError [])
      | m # args \<Rightarrow> Inr (spec_mode_changes True m args))"

definition strip_status :: "string \<Rightarrow> string" where
  "strip_status n =
     (case n of c # cs \<Rightarrow> if c = CHR ''@'' \<or> c = CHR ''+'' then cs else n | [] \<Rightarrow> n)"

text \<open>The parameters of a name reply: the client's nick, a channel type, the channel, the names.\<close>

definition spec_parse_name_list :: "string list \<Rightarrow> exn + (string \<times> string list)" where
  "spec_parse_name_list params =
     (case params of
        [_, _, channel, names] \<Rightarrow> Inr (channel, map strip_status (words_from [] names))
      | _ \<Rightarrow> Inl (ParserError (join '' '' params)))"

definition spec_modules :: modules where
  "spec_modules =
     \<lparr>parse = spec_parse,
      parse_user_prefix = spec_parse_user_prefix,
      parse_message_target = spec_parse_message_target,
      parse_channel_mode_params = spec_parse_channel_mode_params,
      parse_name_list = spec_parse_name_list,
      ERROR_PARAMETERS = [433 \<mapsto> [''nick'', ''message'']]\<rparr>"

text \<open>A registered client named \<^verbatim>\<open>me\<close> that has joined no channel yet.\<close>

definition st0 :: client_state where
  "st0 = \<lparr>connected = True, registered = True, server = Some ''irc.example.org'', nick = ''me'',
          channels = Map.empty, operator_in = [], has_voice_in = []\<rparr>"

subsection \<open>Predicates on the processor\<close>

text \<open>No channel name is a key of the pending table and of \<^verbatim>\<open>channels\<close> at once.\<close>

definition pending_disjoint :: "processor \<Rightarrow> bool" where
  "pending_disjoint p = (dom (pending_channel_info p) \<inter> dom (channels (state p)) = {})"

text \<open>The command of a message, when the tokenizer returns one.\<close>

definition command_of :: "modules \<Rightarrow> string \<Rightarrow> string option" where
  "command_of M message =
     (case parse M message of Inl e \<Rightarrow> None | Inr (prefix, command, params) \<Rightarrow> Some command)"

text \<open>Every channel of \<^verbatim>\<open>operator_in\<close> and of \<^verbatim>\<open>has_voice_in\<close> is a key of \<^verbatim>\<open>channels\<close>.\<close>

definition status_within_channels :: "processor \<Rightarrow> bool" where
  "status_within_channels p =
     (set (operator_in (state p)) \<subseteq> dom (channels (state p)) \<and>
      set (has_voice_in (state p)) \<subseteq> dom (channels (state p)))"

text \<open>The second processor has the status lists of the first.\<close>

definition same_status :: "processor \<Rightarrow> processor \<Rightarrow> bool" where
  "same_status p p' =
     (operator_in (state p') = operator_in (state p) \<and> has_voice_in (state p') = has_voice_in (state p))"

text \<open>The second processor has every key of \<^verbatim>\<open>channels\<close> that the first has.\<close>

definition keeps_channels :: "processor \<Rightarrow> processor \<Rightarrow> bool" where
  "keeps_channels p p' = (dom (channels (state p)) \<subseteq> dom (channels (state p')))"

text \<open>
  The channel that this client's own PART or KICK names: the one the processor deletes
  from \<^verbatim>\<open>channels\<close> when it is a key. A KICK reaches the deletion only with two
  parameters and a prefix the tokenizer resolves.
\<close>

definition leaves_channel :: "modules \<Rightarrow> string \<Rightarrow> processor \<Rightarrow> string option" where
  "leaves_channel M message p =
     (case parse M message of
        Inl e \<Rightarrow> None
      | Inr (prefix, command, params) \<Rightarrow>
          if command = Cmd_PART then
            (case parse_user_prefix M prefix of
               Inl e \<Rightarrow> None
             | Inr n \<Rightarrow>
                 if nick (state p) = n then (case params of [] \<Rightarrow> None | channel # _ \<Rightarrow> Some channel)
                 else None)
          else if command = Cmd_KICK then
            (if 2 \<le> length params \<and> params ! 1 = nick (state p) then
               (case parse_user_prefix M prefix of Inl e \<Rightarrow> None | Inr initiator \<Rightarrow> Some (params ! 0))
             else None)
          else None)"

text \<open>
  The message is this client's own PART or KICK for a channel of \<^verbatim>\<open>operator_in\<close> or
  \<^verbatim>\<open>has_voice_in\<close>.
\<close>

definition departs_listed :: "modules \<Rightarrow> string \<Rightarrow> processor \<Rightarrow> bool" where
  "departs_listed M message p =
     (case leaves_channel M message p of
        None \<Rightarrow> False
      | Some channel \<Rightarrow>
          channel \<in> set (operator_in (state p)) \<or> channel \<in> set (has_voice_in (state p)))"

text \<open>
  The channel that \<^verbatim>\<open>_process_mode\<close> hands to \<^verbatim>\<open>_process_channel_mode\<close>: that of the
  first target of the first parameter.
\<close>

definition mode_channel :: "modules \<Rightarrow> string list \<Rightarrow> string option" where
  "mode_channel M params =
     (case index params 0 of
        Inl e \<Rightarrow> None
      | Inr t \<Rightarrow>
          (case parse_message_target M t of
             Inl e \<Rightarrow> None
           | Inr targets \<Rightarrow>
               (case index targets 0 of
                  Inl e \<Rightarrow> None
                | Inr target \<Rightarrow>
                    (case target_channel target of
                       None \<Rightarrow> None
                     | Some c \<Rightarrow> if c \<noteq> [] then Some c else None))))"

text \<open>The mode change gives operator or voice status to the nick \<open>n\<close>.\<close>

definition own_grant :: "string \<Rightarrow> mode_change \<Rightarrow> bool" where
  "own_grant n mc =
     (added mc \<and> (mode mc = ChannelMode_OPERATOR \<or> mode mc = ChannelMode_VOICE) \<and>
      index (mode_params mc) 0 = Inr n)"

text \<open>
  The message is a MODE for a channel that is not a key of \<^verbatim>\<open>channels\<close>, and one of its
  mode changes gives this client operator or voice status.
\<close>

definition grants_off_channel :: "modules \<Rightarrow> string \<Rightarrow> processor \<Rightarrow> bool" where
  "grants_off_channel M message p =
     (case parse M message of
        Inl e \<Rightarrow> False
      | Inr (prefix, command, params) \<Rightarrow>
          command = Cmd_MODE \<and>
          (case mode_channel M params of
             None \<Rightarrow> False
           | Some c \<Rightarrow>
               channels (state p) c = None \<and>
               (case parse_channel_mode_params M (drop 1 params) of
                  Inl e \<Rightarrow> False
                | Inr mode_changes \<Rightarrow> list_ex (own_grant (nick (state p))) mode_changes)))"

text \<open>
  The client \<^verbatim>\<open>me\<close> after it joined \<^verbatim>\<open>#x\<close> (JOIN, name reply, end of names) and was
  made operator there by \<^verbatim>\<open>op\<close>.
\<close>

definition operator_of_x :: processor where
  "operator_of_x =
     process_all spec_modules
       ['':me!u@h JOIN #x'', '':srv 353 me = #x :a b'', '':srv 366 me #x :End of NAMES list'',
        '':op!u@h MODE #x +o me'']
       (init st0)"

section \<open>The connection\<close>

subsection \<open>Python text, bytes and the UTF-8 codec\<close>

text \<open>
  A Python \<^verbatim>\<open>str\<close> is a sequence of code points and a \<^verbatim>\<open>bytes\<close> object a sequence of
  numbers below 256; both are lists of naturals here. A \<^verbatim>\<open>str\<close> holds no code point
  from \<open>0x110000\<close> on, and a byte from 256 on, which no \<^verbatim>\<open>bytes\<close> object holds, is
  treated as an invalid start byte by the decoder below.
\<close>

type_synonym pystr = "nat list"
type_synonym bytes = "nat list"

text \<open>A string literal of the source, all of whose characters are ASCII.\<close>

definition ascii :: "string \<Rightarrow> pystr" where
  "ascii s = map of_char s"

text \<open>
  \<^verbatim>\<open>str.encode('utf-8')\<close>, with the default error handling: a surrogate code point
  raises UnicodeEncodeError.
\<close>

definition encode_char :: "nat \<Rightarrow> exn + bytes" where
  "encode_char c =
     (if c < 0x80 then Inr [c]
      else if c < 0x800 then Inr [0xC0 + c div 64, 0x80 + c mod 64]
      else if c < 0x10000 then
        (if 0xD800 \<le> c \<and> c \<le> 0xDFFF then Inl UnicodeEncodeError
         else Inr [0xE0 + c div 4096, 0x80 + (c div 64) mod 64, 0x80 + c mod 64])
      else Inr [0xF0 + c div 262144, 0x80 + (c div 4096) mod 64, 0x80 + (c div 64) mod 64,
                0x80 + c mod 64])"

fun str_encode :: "pystr \<Rightarrow> exn + bytes" where
  "str_encode [] = Inr []"
| "str_encode (c # cs) =
     (case encode_char c of
        Inl e \<Rightarrow> Inl e
      | Inr bs \<Rightarrow> (case str_encode cs of Inl e \<Rightarrow> Inl e | Inr rest \<Rightarrow> Inr (bs @ rest)))"

text \<open>
  \<^verbatim>\<open>bytes.decode('utf-8', errors)\<close>. The decoder scans the bytes into code points and
  malformed subsequences; for each malformed subsequence it calls the error handler
  registered under the name \<^verbatim>\<open>errors\<close> with the reason, puts the text the handler
  returns in its place and goes on at the position the handler returns. The handler of
  the connection returns what \<^verbatim>\<open>codecs.replace_errors\<close> returns, whose position is the
  end of the malformed subsequence, so \<open>utf8_next\<close> returns the bytes after it. A
  malformed subsequence is an invalid start byte, or a start byte with the continuation
  bytes that can follow it, up to the first byte that cannot or to the end of the data.
\<close>

datatype utf8_item = Decoded nat | Malformed string

definition continuation :: "nat \<Rightarrow> bool" where
  "continuation b = (0x80 \<le> b \<and> b \<le> 0xBF)"

text \<open>The second byte after a start byte of a sequence of three and of four bytes.\<close>

definition second_of3 :: "nat \<Rightarrow> nat \<Rightarrow> bool" where
  "second_of3 b c =
     (continuation c \<and> (if b = 0xE0 then 0xA0 \<le> c else True) \<and> (if b = 0xED then c \<le> 0x9F else True))"

definition second_of4 :: "nat \<Rightarrow> nat \<Rightarrow> bool" where
  "second_of4 b c =
     (continuation c \<and> (if b = 0xF0 then 0x90 \<le> c else True) \<and> (if b = 0xF4 then c \<le> 0x8F else True))"

text \<open>The first item of the bytes \<open>b # bs\<close>, and the bytes after it.\<close>

definition utf8_next :: "nat \<Rightarrow> bytes \<Rightarrow> utf8_item \<times> bytes" where
  "utf8_next b bs =
     (if b < 0x80 then (Decoded b, bs)
      else if 0xC2 \<le> b \<and> b \<le> 0xDF then
        (case bs of
           [] \<Rightarrow> (Malformed ''unexpected end of data'', [])
         | c # cs \<Rightarrow>
             if continuation c then (Decoded ((b - 0xC0) * 64 + (c - 0x80)), cs)
             else (Malformed ''invalid continuation byte'', bs))
      else if 0xE0 \<le> b \<and> b \<le> 0xEF then
        (case bs of
           [] \<Rightarrow> (Malformed ''unexpected end of data'', [])
         | c # cs \<Rightarrow>
             if \<not> second_of3 b c then (Malformed ''invalid continuation byte'', bs)
             else
               (case cs of
                  [] \<Rightarrow> (Malformed ''unexpected end of data'', [])
                | d # ds \<Rightarrow>
                    if continuation d
                    then (Decoded ((b - 0xE0) * 4096 + (c - 0x80) * 64 + (d - 0x80)), ds)
                    else (Malformed ''invalid continuation byte'', cs)))
      else if 0xF0 \<le> b \<and> b \<le> 0xF4 then
        (case bs of
           [] \<Rightarrow> (Malformed ''unexpected end of data'', [])
         | c # cs \<Rightarrow>
             if \<not> second_of4 b c then (Malformed ''invalid continuation byte'', bs)
             else
               (case cs of
                  [] \<Rightarrow> (Malformed ''unexpected end of data'', [])
                | d # ds \<Rightarrow>
                    if \<not> continuation d then (Malformed ''invalid continuation byte'', cs)
                    else
                      (case ds of
                         [] \<Rightarrow> (Malformed ''unexpected end of data'', [])
                       | e # es \<Rightarrow>
                           if continuation e
                           then (Decoded ((b - 0xF0) * 262144 + (c - 0x80) * 4096
                                            + (d - 0x80) * 64 + (e - 0x80)), es)
                           else (Malformed ''invalid continuation byte'', ds))))
      else (Malformed ''invalid start byte'', bs))"

lemma utf8_next_shorter: "length (snd (utf8_next b bs)) \<le> length bs"
  by (simp add: utf8_next_def split: list.splits)

function utf8_scan :: "bytes \<Rightarrow> utf8_item list" where
  "utf8_scan [] = []"
| "utf8_scan (b # bs) = fst (utf8_next b bs) # utf8_scan (snd (utf8_next b bs))"
  by pat_completeness auto
termination
  by (relation "measure length") (simp_all add: utf8_next_shorter le_imp_less_Suc)

text \<open>
  The decoder over the scanned items. The error handler gets the reason and the object
  it may change; it returns the replacement text or raises, and what it raises leaves
  the decoder.
\<close>

fun decode_items ::
  "(string \<Rightarrow> 'c \<Rightarrow> (exn + pystr) \<times> 'c) \<Rightarrow> utf8_item list \<Rightarrow> 'c \<Rightarrow> (exn + pystr) \<times> 'c" where
  "decode_items h [] c = (Inr [], c)"
| "decode_items h (Decoded cp # items) c =
     (case decode_items h items c of
        (Inl e, c') \<Rightarrow> (Inl e, c')
      | (Inr text, c') \<Rightarrow> (Inr (cp # text), c'))"
| "decode_items h (Malformed reason # items) c =
     (case h reason c of
        (Inl e, c') \<Rightarrow> (Inl e, c')
      | (Inr replacement, c') \<Rightarrow>
          (case decode_items h items c' of
             (Inl e, c'') \<Rightarrow> (Inl e, c'')
           | (Inr text, c'') \<Rightarrow> (Inr (replacement @ text), c'')))"

definition bytes_decode ::
  "(string \<Rightarrow> 'c \<Rightarrow> (exn + pystr) \<times> 'c) \<Rightarrow> bytes \<Rightarrow> 'c \<Rightarrow> (exn + pystr) \<times> 'c" where
  "bytes_decode h data c = decode_items h (utf8_scan data) c"

text \<open>
  \<^verbatim>\<open>str.splitlines()\<close>: the line boundaries are line feed, carriage return, carriage
  return with line feed, vertical tab, form feed, the file, group and record separators,
  next line, and the line and paragraph separators; the boundaries are not kept.
\<close>

definition line_boundary :: "nat \<Rightarrow> bool" where
  "line_boundary c = (c \<in> set [10, 11, 12, 13, 28, 29, 30, 133, 8232, 8233])"

fun splitlines_from :: "pystr \<Rightarrow> pystr \<Rightarrow> pystr list" where
  "splitlines_from acc [] = (if acc = [] then [] else [acc])"
| "splitlines_from acc (c # cs) =
     (if c = 13 then
        (case cs of
           [] \<Rightarrow> [acc]
         | d # ds \<Rightarrow> if d = 10 then acc # splitlines_from [] ds else acc # splitlines_from [] cs)
      else if line_boundary c then acc # splitlines_from [] cs
      else splitlines_from (acc @ [c]) cs)"

definition splitlines :: "pystr \<Rightarrow> pystr list" where
  "splitlines text = splitlines_from [] text"

subsection \<open>The event loop and the connection object\<close>

text \<open>
  The connection asks the event loop of asyncio two things: \<^verbatim>\<open>is_running()\<close> and
  \<^verbatim>\<open>stop()\<close>. The loop is running from the moment \<^verbatim>\<open>run_forever\<close> is entered until it
  returns. \<^verbatim>\<open>stop()\<close> only requests the stop: the loop finishes the callbacks of its
  current iteration and then \<^verbatim>\<open>run_forever\<close> returns, so \<^verbatim>\<open>is_running()\<close> stays true for
  the rest of the callback that called \<^verbatim>\<open>stop()\<close>. The two flags below are that state.

  The abstract methods \<^verbatim>\<open>connection_initiation\<close> and \<^verbatim>\<open>connection_shutdown\<close> notify the
  client, which is not among the sources: the connection counts the calls. The transport
  is \<^verbatim>\<open>None\<close> until \<^verbatim>\<open>connection_made\<close> sets \<^verbatim>\<open>self._transport\<close>, then the list of the
  byte strings written to it. The logger keeps the records it was given.
\<close>

datatype level = DEBUG | INFO | ERROR | CRITICAL

record connection =
  loop_running :: bool
  loop_stopping :: bool
  transport :: "bytes list option"
  logger :: "(level \<times> pystr) list"
  initiations :: nat
  shutdowns :: nat

definition logging :: "level \<Rightarrow> pystr \<Rightarrow> connection \<Rightarrow> connection" where
  "logging l text c = c\<lparr>logger := logger c @ [(l, text)]\<rparr>"

text \<open>\<^verbatim>\<open>Connection.__init__\<close>, with a loop that is not running.\<close>

definition new_connection :: connection where
  "new_connection =
     \<lparr>loop_running = False, loop_stopping = False, transport = None, logger = [],
      initiations = 0, shutdowns = 0\<rparr>"

text \<open>
  \<^verbatim>\<open>run\<close> enters the loop unless it is running; the loop then calls \<^verbatim>\<open>connection_made\<close>
  once the transport exists. \<open>iteration_end\<close> is the end of an iteration of
  \<^verbatim>\<open>run_forever\<close>, where a requested stop takes effect.
\<close>

definition run :: "connection \<Rightarrow> connection" where
  "run c = (if \<not> loop_running c then c\<lparr>loop_running := True, loop_stopping := False\<rparr> else c)"

definition iteration_end :: "connection \<Rightarrow> connection" where
  "iteration_end c =
     (if loop_stopping c then c\<lparr>loop_running := False, loop_stopping := False\<rparr> else c)"

definition connection_made :: "connection \<Rightarrow> connection" where
  "connection_made c = c\<lparr>transport := Some [], initiations := Suc (initiations c)\<rparr>"

definition terminate :: "connection \<Rightarrow> connection" where
  "terminate c =
     (if loop_running c
      then c\<lparr>loop_stopping := True, shutdowns := Suc (shutdowns c)\<rparr>
      else c)"

definition send_message :: "pystr \<Rightarrow> connection \<Rightarrow> exn option \<times> connection" where
  "send_message message c =
     (if loop_running c then
        (let c1 = logging DEBUG (ascii ''Sending message: '' @ message) c in
         case transport c1 of
           None \<Rightarrow> (Some AttributeError, c1)
         | Some written \<Rightarrow>
             (case str_encode (message @ [13, 10]) of
                Inl e \<Rightarrow> (Some e, c1)
              | Inr data \<Rightarrow> (None, c1\<lparr>transport := Some (written @ [data])\<rparr>)))
      else (Some (NotConnectedError ''TODO''), c))"

text \<open>\<^verbatim>\<open>Connection._decoding_error_handler\<close>, registered as \<^verbatim>\<open>log_and_replace\<close>.\<close>

definition decoding_error_handler :: "string \<Rightarrow> connection \<Rightarrow> (exn + pystr) \<times> connection" where
  "decoding_error_handler reason c =
     (Inr [0xFFFD],
      logging ERROR (ascii ''Replacing the malformed character.'')
        (logging ERROR (ascii ''Invalid character encoding: '' @ ascii reason) c))"

text \<open>
  The loop of \<^verbatim>\<open>data_received\<close> over the lines. The abstract method
  \<^verbatim>\<open>message_dispatching\<close> is a parameter: it may change the connection (the client can
  call \<^verbatim>\<open>send_message\<close> and \<^verbatim>\<open>terminate\<close> while it handles a message) and it may raise.
\<close>

fun dispatch_lines ::
  "(pystr \<Rightarrow> connection \<Rightarrow> exn option \<times> connection) \<Rightarrow> pystr list \<Rightarrow> connection
     \<Rightarrow> exn option \<times> connection" where
  "dispatch_lines message_dispatching [] c = (None, c)"
| "dispatch_lines message_dispatching (message # rest) c =
     (case message_dispatching message (logging DEBUG (ascii ''Incoming message: '' @ message) c) of
        (Some e, c') \<Rightarrow> (Some e, c')
      | (None, c') \<Rightarrow> dispatch_lines message_dispatching rest c')"

text \<open>The \<^verbatim>\<open>except Exception\<close> clause of \<^verbatim>\<open>data_received\<close>.\<close>

definition unhandled_exception :: "connection \<Rightarrow> connection" where
  "unhandled_exception c =
     terminate
       (logging CRITICAL (ascii ''Shutting down the client, due to an unhandled exception!'')
          (logging ERROR (ascii ''Unhandled Exception while running an IRCClient:'') c))"

definition data_received ::
  "(pystr \<Rightarrow> connection \<Rightarrow> exn option \<times> connection) \<Rightarrow> bytes \<Rightarrow> connection \<Rightarrow> connection" where
  "data_received message_dispatching data c =
     (case bytes_decode decoding_error_handler data c of
        (Inl e, c1) \<Rightarrow> unhandled_exception c1
      | (Inr text, c1) \<Rightarrow>
          (case dispatch_lines message_dispatching (splitlines text) c1 of
             (None, c2) \<Rightarrow> c2
           | (Some e, c2) \<Rightarrow> unhandled_exception c2))"

definition connect_lost :: "connection \<Rightarrow> connection" where
  "connect_lost c = terminate (logging INFO (ascii ''Connection closed.'') c)"

definition eof_received :: "connection \<Rightarrow> connection" where
  "eof_received c = terminate (logging DEBUG (ascii ''Received EOF'') c)"

text \<open>A connection whose loop is running and whose transport is established.\<close>

definition established :: connection where
  "established = connection_made (run new_connection)"

text \<open>
  A client that asks for the shutdown when it is told to quit, and one that does nothing
  with the messages it is given.
\<close>

definition quit_on_request :: "pystr \<Rightarrow> connection \<Rightarrow> exn option \<times> connection" where
  "quit_on_request message c = (if message = ascii ''quit'' then (None, terminate c) else (None, c))"

text \<open>
  What the decoder with the connection's error handler makes of one scanned item: the
  text it contributes, where U+FFFD stands for a malformed subsequence, and the records
  the handler gives the logger.
\<close>

definition item_text :: "utf8_item \<Rightarrow> pystr" where
  "item_text item = (case item of Decoded cp \<Rightarrow> [cp] | Malformed reason \<Rightarrow> [0xFFFD])"

definition item_log :: "utf8_item \<Rightarrow> (level \<times> pystr) list" where
  "item_log item =
     (case item of
        Decoded cp \<Rightarrow> []
      | Malformed reason \<Rightarrow>
          [(ERROR, ascii ''Invalid character encoding: '' @ ascii reason),
           (ERROR, ascii ''Replacing the malformed character.'')])"

text \<open>The text of a data block as \<^verbatim>\<open>data_received\<close> decodes it.\<close>

definition decoded_text :: "bytes \<Rightarrow> pystr" where
  "decoded_text data = concat (map item_text (utf8_scan data))"

text \<open>Lines as they stand on the wire, each ended by carriage return and line feed.\<close>

definition wire :: "pystr list \<Rightarrow> pystr" where
  "wire ls = concat (map (\<lambda>l. l @ [13, 10]) ls)"

text \<open>
  A block of data that begins with \<^verbatim>\<open>H\<close> and the byte \<^verbatim>\<open>0xFF\<close>, which no UTF-8 text
  holds, then a line feed and the line \<^verbatim>\<open>PING :a\<close>.
\<close>

definition garbled_block :: bytes where
  "garbled_block = [72, 255] @ 10 # ascii ''PING :a'' @ [13, 10]"

text \<open>The connection after \<^verbatim>\<open>data_received\<close> has decoded a block: the records of the handler.\<close>

definition after_decoding :: "bytes \<Rightarrow> connection \<Rightarrow> connection" where
  "after_decoding data c = c\<lparr>logger := logger c @ concat (map item_log (utf8_scan data))\<rparr>"

text \<open>
  The messages that the loop of \<^verbatim>\<open>data_received\<close> hands to \<^verbatim>\<open>message_dispatching\<close>, in
  the order of the calls: the loop ends with the first call that raises.
\<close>

fun dispatched ::
  "(pystr \<Rightarrow> connection \<Rightarrow> exn option \<times> connection) \<Rightarrow> pystr list \<Rightarrow> connection \<Rightarrow> pystr list" where
  "dispatched message_dispatching [] c = []"
| "dispatched message_dispatching (message # rest) c =
     message #
     (case message_dispatching message (logging DEBUG (ascii ''Incoming message: '' @ message) c) of
        (Some e, c') \<Rightarrow> []
      | (None, c') \<Rightarrow> dispatched message_dispatching rest c')"

text \<open>The messages dispatched for one block of data, and for the blocks of a stream in turn.\<close>

definition block_dispatched ::
  "(pystr \<Rightarrow> connection \<Rightarrow> exn option \<times> connection) \<Rightarrow> bytes \<Rightarrow> connection \<Rightarrow> pystr list" where
  "block_dispatched message_dispatching data c =
     dispatched message_dispatching (splitlines (decoded_text data)) (after_decoding data c)"

fun stream_dispatched ::
  "(pystr \<Rightarrow> connection \<Rightarrow> exn option \<times> connection) \<Rightarrow> bytes list \<Rightarrow> connection \<Rightarrow> pystr list" where
  "stream_dispatched message_dispatching [] c = []"
| "stream_dispatched message_dispatching (data # blocks) c =
     block_dispatched message_dispatching data c
       @ stream_dispatched message_dispatching blocks (data_received message_dispatching data c)"

text \<open>
  A client whose handling of a message raises when the message holds U+FFFD, as the
  message processor raises KeyError at a JOIN for a channel name it does not know.
\<close>

definition raising_on_replacement :: "pystr \<Rightarrow> connection \<Rightarrow> exn option \<times> connection" where
  "raising_on_replacement message c = (if 0xFFFD \<in> set message then (Some KeyError, c) else (None, c))"

text \<open>
  The stream \<^verbatim>\<open>0xFF\<close>, line feed, \<^verbatim>\<open>PING :a\<close>, carriage return, line feed, delivered
  in two blocks that part the line; and a block whose second line holds the group
  separator \<^verbatim>\<open>0x1D\<close>, a character that a message text may hold.
\<close>

definition first_half :: bytes where
  "first_half = [255, 10] @ ascii ''PI''"

definition second_half :: bytes where
  "second_half = ascii ''NG :a'' @ [13, 10]"

definition separator_block :: bytes where
  "separator_block = [255, 10] @ ascii ''a'' @ [29] @ ascii ''b'' @ [13, 10]"

text \<open>One block of data with two lines \<^verbatim>\<open>quit\<close>.\<close>

definition two_quits :: bytes where
  "two_quits = ascii ''quit'' @ [13, 10] @ ascii ''quit'' @ [13, 10]"

definition ignoring :: "pystr \<Rightarrow> connection \<Rightarrow> exn option \<times> connection" where
  "ignoring message c = (None, c)"


section \<open>Properties of the message processor\<close>

lemmas cmd_defs = Cmd_PING_def Cmd_PRIVMSG_def Cmd_JOIN_def Cmd_PART_def Cmd_MODE_def
  Cmd_KICK_def Cmd_NICK_def Cmd_TOPIC_def Cmd_QUIT_def

lemma three_digits_match_cmd:
  "\<not> three_digits_match Cmd_PING" "\<not> three_digits_match Cmd_PRIVMSG" "\<not> three_digits_match Cmd_JOIN"
  "\<not> three_digits_match Cmd_PART" "\<not> three_digits_match Cmd_MODE" "\<not> three_digits_match Cmd_KICK"
  "\<not> three_digits_match Cmd_NICK" "\<not> three_digits_match Cmd_TOPIC" "\<not> three_digits_match Cmd_QUIT"
  by (simp_all add: cmd_defs three_digits_match_def is_digit_def)

lemmas spec_parser_defs = spec_modules_def spec_parse_def spec_parse_user_prefix_def
  spec_parse_message_target_def spec_target_def spec_parse_channel_mode_params_def
  spec_parse_name_list_def strip_status_def channel_prefixed_def startswith_def

lemma dispatch_privmsg:
  "parse M message = Inr (prefix, Cmd_PRIVMSG, params) \<Longrightarrow>
   dispatch M message p = process_privmsg M prefix params message p"
  by (simp add: dispatch_def three_digits_match_cmd) (simp add: cmd_defs)

text \<open>
  Claim C8. A PRIVMSG with a non-empty prefix and exactly two parameters, the target and
  the text: when the prefix resolves to a sender other than this client and the target
  resolves to this client's own nick, \<^verbatim>\<open>process\<close> returns normally and makes exactly one
  call on the handler, \<^verbatim>\<open>handle_private_message\<close> with the text and the sender (so no
  channel-message call); when the prefix resolves to this client's own nick, it returns
  normally having changed nothing and called nothing.
\<close>

theorem privmsg_to_own_nick:
  assumes "connected (state p)"
    and "parse M message = Inr (Some pre, Cmd_PRIVMSG, [target, text])"
    and "pre \<noteq> []"
    and "parse_user_prefix M (Some pre) = Inr sender"
  shows "(sender \<noteq> [] \<and> sender \<noteq> nick (state p) \<and> nick (state p) \<noteq> [] \<and>
          parse_message_target M target = Inr [t] \<and> target_nick t = Some (nick (state p))
          \<longrightarrow> process M message p = (None, call (handle_private_message text sender) p)) \<and>
         (sender = nick (state p) \<longrightarrow> process M message p = (None, p))"
proof -
  have d: "dispatch M message p = process_privmsg M (Some pre) [target, text] message p"
    using assms(2) by (rule dispatch_privmsg)
  have own: "process_privmsg M (Some pre) [target, text] message p = (None, p)"
    if "sender = nick (state p)"
    using that assms(3,4) by (simp add: process_privmsg_def truthy_def)
  have other: "process_privmsg M (Some pre) [target, text] message p
      = (None, call (handle_private_message text sender) p)"
    if "sender \<noteq> []" "sender \<noteq> nick (state p)" "nick (state p) \<noteq> []"
      "parse_message_target M target = Inr [t]" "target_nick t = Some (nick (state p))"
    using that assms(3,4) by (simp add: process_privmsg_def truthy_def)
  show ?thesis using d own other assms(1) by (simp add: process_def)
qed

text \<open>
  The two cases on the tokenizer of the wire format, for the client \<^verbatim>\<open>me\<close>: a message
  from \<^verbatim>\<open>nick!user@host\<close> and the echo of a message of its own.
\<close>

theorem privmsg_to_own_nick_witness:
  "connected (state (init st0)) \<and>
   parse spec_modules '':nick!user@host PRIVMSG me :hello''
     = Inr (Some ''nick!user@host'', Cmd_PRIVMSG, [''me'', ''hello'']) \<and>
   parse_user_prefix spec_modules (Some ''nick!user@host'') = Inr ''nick'' \<and>
   parse_message_target spec_modules ''me'' = Inr [\<lparr>target_nick = Some ''me'', target_channel = None\<rparr>] \<and>
   process spec_modules '':nick!user@host PRIVMSG me :hello'' (init st0)
     = (None, call (handle_private_message ''hello'' ''nick'') (init st0)) \<and>
   parse spec_modules '':me!user@host PRIVMSG me :hello''
     = Inr (Some ''me!user@host'', Cmd_PRIVMSG, [''me'', ''hello'']) \<and>
   parse_user_prefix spec_modules (Some ''me!user@host'') = Inr (nick (state (init st0))) \<and>
   process spec_modules '':me!user@host PRIVMSG me :hello'' (init st0) = (None, init st0)"
proof -
  have a: "connected (state (init st0))" by (simp add: init_def st0_def)
  have n: "nick (state (init st0)) = ''me''" by (simp add: init_def st0_def)
  have b: "parse spec_modules '':nick!user@host PRIVMSG me :hello''
     = Inr (Some ''nick!user@host'', Cmd_PRIVMSG, [''me'', ''hello''])"
    by (simp add: spec_parser_defs Cmd_PRIVMSG_def)
  have c: "''nick!user@host'' \<noteq> []" by simp
  have d: "parse_user_prefix spec_modules (Some ''nick!user@host'') = Inr ''nick''"
    by (simp add: spec_parser_defs)
  have e: "parse_message_target spec_modules ''me'' = Inr [\<lparr>target_nick = Some ''me'', target_channel = None\<rparr>]"
    by (simp add: spec_parser_defs)
  have b': "parse spec_modules '':me!user@host PRIVMSG me :hello''
     = Inr (Some ''me!user@host'', Cmd_PRIVMSG, [''me'', ''hello''])"
    by (simp add: spec_parser_defs Cmd_PRIVMSG_def)
  have c': "''me!user@host'' \<noteq> []" by simp
  have d': "parse_user_prefix spec_modules (Some ''me!user@host'') = Inr ''me''"
    by (simp add: spec_parser_defs)
  show ?thesis
    using privmsg_to_own_nick [OF a b c d, of "\<lparr>target_nick = Some ''me'', target_channel = None\<rparr>"]
      privmsg_to_own_nick [OF a b' c' d', of "\<lparr>target_nick = Some ''me'', target_channel = None\<rparr>"]
      a n b d e b' d'
    by simp
qed

lemma map_of_fold_update:
  "map_of (fold (\<lambda>k al. AList.update k (f k) al) ks al0) x
     = (if x \<in> set ks then Some (f x) else map_of al0 x)"
  by (induction ks arbitrary: al0) (auto simp add: update_conv')

lemma distinct_fold_update:
  "distinct (map fst al0) \<Longrightarrow> distinct (map fst (fold (\<lambda>k al. AList.update k (f k) al) ks al0))"
  by (induction ks arbitrary: al0) (auto simp add: distinct_update)

lemma dispatch_numeric_error:
  assumes "parse M message = Inr (prefix, command, params)"
    and "three_digits_match command" and "python_int command = Inr num"
    and "400 \<le> num" and "num \<le> 599"
  shows "dispatch M message p = process_numeric_error M num params message p"
  using assms by (simp add: dispatch_def)



lemma dispatch_kick:
  "parse M message = Inr (prefix, Cmd_KICK, params) \<Longrightarrow>
   dispatch M message p = process_kick M prefix params p"
  by (simp add: dispatch_def three_digits_match_cmd) (simp add: cmd_defs)

lemma dispatch_join:
  "parse M message = Inr (prefix, Cmd_JOIN, params) \<Longrightarrow>
   dispatch M message p = process_join M prefix params p"
  by (simp add: dispatch_def three_digits_match_cmd) (simp add: cmd_defs)

text \<open>
  Claim C7. A KICK with fewer than two parameters: \<^verbatim>\<open>process\<close> returns normally with
  the processor exactly as it was, so neither the client state nor the pending table
  changed and no method of the handler was called, \<^verbatim>\<open>handle_unhandled_message\<close>
  included.
\<close>

theorem kick_too_few_params_ignored:
  assumes "connected (state p)" and "parse M message = Inr (prefix, Cmd_KICK, params)"
    and "length params < 2"
  shows "process M message p = (None, p)"
proof -
  have "dispatch M message p = process_kick M prefix params p"
    using assms(2) by (rule dispatch_kick)
  moreover have "process_kick M prefix params p = (None, p)"
    using assms(3) by (simp add: process_kick_def)
  ultimately show ?thesis using assms(1) by (simp add: process_def)
qed

text \<open>A KICK that names a channel and no nick.\<close>

theorem kick_too_few_params_ignored_witness:
  "connected (state (init st0)) \<and>
   parse spec_modules '':op!u@h KICK #x'' = Inr (Some ''op!u@h'', Cmd_KICK, [''#x'']) \<and>
   length [''#x''] < 2 \<and>
   process spec_modules '':op!u@h KICK #x'' (init st0) = (None, init st0)"
proof -
  have a: "connected (state (init st0))" by (simp add: init_def st0_def)
  have b: "parse spec_modules '':op!u@h KICK #x'' = Inr (Some ''op!u@h'', Cmd_KICK, [''#x''])"
    by (simp add: spec_parser_defs Cmd_KICK_def)
  have c: "length [''#x''] < 2" by simp
  show ?thesis using a b c kick_too_few_params_ignored [OF a b c] by simp
qed

text \<open>
  Claim C10. A JOIN whose prefix resolves to a nick other than this client's, for a
  channel that is not a key of \<^verbatim>\<open>channels\<close>: \<^verbatim>\<open>process\<close> does not return normally, it
  raises KeyError (from \<^verbatim>\<open>self._state.channels[channel]\<close>), which neither
  \<^verbatim>\<open>except\<close> clause catches; no method of the handler is called.
\<close>

theorem join_by_other_of_unknown_channel_raises:
  assumes "connected (state p)" and "parse M message = Inr (prefix, Cmd_JOIN, channel # rest)"
    and "parse_user_prefix M prefix = Inr n" and "n \<noteq> nick (state p)"
    and "channels (state p) channel = None"
  shows "process M message p = (Some KeyError, p)"
proof -
  have "dispatch M message p = process_join M prefix (channel # rest) p"
    using assms(2) by (rule dispatch_join)
  moreover have "process_join M prefix (channel # rest) p = (Some KeyError, p)"
    using assms(3,4,5) by (auto simp add: process_join_def index_def)
  ultimately show ?thesis using assms(1) by (simp add: process_def)
qed

lemma joining_eq:
  "snd (process spec_modules '':me!u@h JOIN #x'' (init st0))
     = set_pending [''#x'' \<mapsto> ChannelInfo ''#x''] (init st0)"
proof -
  have "parse spec_modules '':me!u@h JOIN #x'' = Inr (Some ''me!u@h'', Cmd_JOIN, [''#x''])"
    by (simp add: spec_parser_defs Cmd_JOIN_def)
  then have "dispatch spec_modules '':me!u@h JOIN #x'' (init st0)
      = process_join spec_modules (Some ''me!u@h'') [''#x''] (init st0)"
    by (rule dispatch_join)
  moreover have "process_join spec_modules (Some ''me!u@h'') [''#x''] (init st0)
      = (None, set_pending [''#x'' \<mapsto> ChannelInfo ''#x''] (init st0))"
    by (simp add: process_join_def spec_modules_def spec_parse_user_prefix_def index_def init_def st0_def)
  ultimately show ?thesis by (simp add: process_def init_def st0_def)
qed

text \<open>
  The channel \<^verbatim>\<open>#x\<close> is still pending (this client's own JOIN was processed, the end of
  names has not arrived) when another user's JOIN for it arrives.
\<close>

theorem join_by_other_of_unknown_channel_raises_witness:
  "pending_channel_info (snd (process spec_modules '':me!u@h JOIN #x'' (init st0))) ''#x'' \<noteq> None \<and>
   process spec_modules '':other!u@h JOIN #x'' (snd (process spec_modules '':me!u@h JOIN #x'' (init st0)))
     = (Some KeyError, snd (process spec_modules '':me!u@h JOIN #x'' (init st0)))"
proof -
  let ?p = "set_pending [''#x'' \<mapsto> ChannelInfo ''#x''] (init st0)"
  have a: "connected (state ?p)" by (simp add: init_def st0_def set_pending_def)
  have b: "parse spec_modules '':other!u@h JOIN #x'' = Inr (Some ''other!u@h'', Cmd_JOIN, ''#x'' # [])"
    by (simp add: spec_parser_defs Cmd_JOIN_def)
  have c: "parse_user_prefix spec_modules (Some ''other!u@h'') = Inr ''other''"
    by (simp add: spec_parser_defs)
  have d: "''other'' \<noteq> nick (state ?p)" by (simp add: init_def st0_def set_pending_def)
  have e: "channels (state ?p) ''#x'' = None" by (simp add: init_def st0_def set_pending_def)
  have f: "pending_channel_info ?p ''#x'' \<noteq> None" by (simp add: set_pending_def)
  show ?thesis
    using join_by_other_of_unknown_channel_raises [OF a b c d e] f by (simp add: joining_eq)
qed

lemma dispatch_numeric_reply:
  assumes "parse M message = Inr (prefix, command, params)"
    and "three_digits_match command" and "python_int command = Inr num" and "num \<le> 399"
  shows "dispatch M message p = process_numeric_reply M num prefix params message p"
  using assms by (simp add: dispatch_def)

lemma numeric_353: "three_digits_match ''353''" "python_int ''353'' = Inr 353"
  by (simp_all add: three_digits_match_def python_int_def is_digit_def digit_value_def)

lemma numeric_366: "three_digits_match ''366''" "python_int ''366'' = Inr 366"
  by (simp_all add: three_digits_match_def python_int_def is_digit_def digit_value_def)

lemmas rpl_defs = Rpl_WELCOME_def Rpl_TOPIC_def Rpl_NAMREPLY_def Rpl_ENDOFNAMES_def

lemma call_simps [simp]:
  "state (call ev p) = state p"
  "pending_channel_info (call ev p) = pending_channel_info p"
  "handler_calls (call ev p) = handler_calls p @ [ev]"
  by (simp_all add: call_def)

lemma set_pending_simps [simp]:
  "state (set_pending m p) = state p"
  "pending_channel_info (set_pending m p) = m"
  "handler_calls (set_pending m p) = handler_calls p"
  by (simp_all add: set_pending_def)

lemma set_channels_simps [simp]:
  "channels (state (set_channels m p)) = m"
  "nick (state (set_channels m p)) = nick (state p)"
  "connected (state (set_channels m p)) = connected (state p)"
  "registered (state (set_channels m p)) = registered (state p)"
  "server (state (set_channels m p)) = server (state p)"
  "operator_in (state (set_channels m p)) = operator_in (state p)"
  "has_voice_in (state (set_channels m p)) = has_voice_in (state p)"
  "pending_channel_info (set_channels m p) = pending_channel_info p"
  "handler_calls (set_channels m p) = handler_calls p"
  by (simp_all add: set_channels_def)

text \<open>
  Claim C3. From a connected client for which the channel \<open>c\<close> (with a channel prefix
  character, as \<^verbatim>\<open>#x\<close> has) is neither occupied nor pending: this client's own JOIN
  for \<open>c\<close>, then a name reply (353) that lists the nicks \<open>ns\<close> for \<open>c\<close>, then the end of
  names (366) for \<open>c\<close>. All three return normally; afterwards \<open>c\<close> is a key of
  \<^verbatim>\<open>channels\<close> whose nicks are exactly those of \<open>ns\<close>, and no longer pending; the JOIN
  calls nothing on the handler, the name reply only \<^verbatim>\<open>handle_response\<close>, and the end of
  names \<^verbatim>\<open>handle_response\<close> and then the one \<^verbatim>\<open>handle_own_join\<close> of the sequence.
\<close>

theorem join_handshake:
  assumes "connected (state p)"
    and "channel_prefixed c"
    and "channels (state p) c = None" and "pending_channel_info p c = None"
    and "parse M m1 = Inr (pre1, Cmd_JOIN, c # ps1)"
    and "parse_user_prefix M pre1 = Inr (nick (state p))"
    and "parse M m2 = Inr (pre2, ''353'', ps2)"
    and "parse_name_list M ps2 = Inr (c, ns)"
    and "parse M m3 = Inr (pre3, ''366'', me # c # ps3)"
  shows "fst (process M m1 p) = None \<and>
         fst (process M m2 (snd (process M m1 p))) = None \<and>
         fst (process M m3 (process_all M [m1, m2] p)) = None \<and>
         map_option nicks (channels (state (process_all M [m1, m2, m3] p)) c) = Some (set ns) \<and>
         pending_channel_info (process_all M [m1, m2, m3] p) c = None \<and>
         handler_calls (process_all M [m1] p) = handler_calls p \<and>
         handler_calls (process_all M [m1, m2] p) = handler_calls p @ [handle_response 353 m2] \<and>
         handler_calls (process_all M [m1, m2, m3] p)
           = handler_calls p @ [handle_response 353 m2, handle_response 366 m3, handle_own_join c]"
proof -
  define p1 where "p1 = set_pending ((pending_channel_info p)(c \<mapsto> ChannelInfo c)) p"
  define p2 where "p2 = set_pending ((pending_channel_info p)(c \<mapsto> ChannelInfo_add_nicks ns (ChannelInfo c)))
                          (call (handle_response 353 m2) p1)"
  define p3 where "p3 = call (handle_own_join c)
      (set_channels ((channels (state p))(c \<mapsto> ChannelInfo_add_nicks ns (ChannelInfo c)))
         (set_pending ((pending_channel_info p)(c := None)) (call (handle_response 366 m3) p2)))"
  have "dispatch M m1 p = process_join M pre1 (c # ps1) p"
    using assms(5) by (rule dispatch_join)
  also have "\<dots> = (None, p1)"
    using assms(3,6) by (simp add: process_join_def index_def p1_def)
  finally have s1: "process M m1 p = (None, p1)"
    using assms(1) by (simp add: process_def)
  have c1: "connected (state p1)" using assms(1) by (simp add: p1_def)
  have "dispatch M m2 p1 = process_numeric_reply M 353 pre2 ps2 m2 p1"
    using assms(7) numeric_353 by (rule dispatch_numeric_reply) simp
  also have "\<dots> = (None, p2)"
    using assms(8) by (simp add: process_numeric_reply_def rpl_defs p1_def p2_def)
  finally have s2: "process M m2 p1 = (None, p2)"
    using c1 by (simp add: process_def)
  have c2: "connected (state p2)" using c1 by (simp add: p2_def)
  have "dispatch M m3 p2 = process_numeric_reply M 366 pre3 (me # c # ps3) m3 p2"
    using assms(9) numeric_366 by (rule dispatch_numeric_reply) simp
  also have "\<dots> = (None, p3)"
    using assms(2) by (simp add: process_numeric_reply_def rpl_defs index_def p1_def p2_def p3_def)
  finally have s3: "process M m3 p2 = (None, p3)"
    using c2 by (simp add: process_def)
  have n: "map_option nicks (channels (state p3) c) = Some (set ns)"
    by (simp add: p3_def ChannelInfo_add_nicks_def ChannelInfo_def)
  have q: "pending_channel_info p3 c = None"
    by (simp add: p3_def)
  have h1: "handler_calls p1 = handler_calls p" by (simp add: p1_def)
  have h2: "handler_calls p2 = handler_calls p @ [handle_response 353 m2]"
    by (simp add: p2_def p1_def)
  have h3: "handler_calls p3 = handler_calls p @ [handle_response 353 m2, handle_response 366 m3, handle_own_join c]"
    by (simp add: p3_def p2_def p1_def)
  show ?thesis using s1 s2 s3 n q h1 h2 h3 by simp
qed

text \<open>
  The handshake for \<^verbatim>\<open>#x\<close> with the nicks \<^verbatim>\<open>a\<close> and \<^verbatim>\<open>b\<close>, on the tokenizer of the wire
  format.
\<close>

theorem join_handshake_witness:
  "map_option nicks
     (channels (state (process_all spec_modules
        ['':me!u@h JOIN #x'', '':srv 353 me = #x :a b'', '':srv 366 me #x :End of NAMES list'']
        (init st0))) ''#x'') = Some {''a'', ''b''} \<and>
   handler_calls (process_all spec_modules ['':me!u@h JOIN #x''] (init st0)) = [] \<and>
   handler_calls (process_all spec_modules ['':me!u@h JOIN #x'', '':srv 353 me = #x :a b''] (init st0))
     = [handle_response 353 '':srv 353 me = #x :a b''] \<and>
   handler_calls (process_all spec_modules
        ['':me!u@h JOIN #x'', '':srv 353 me = #x :a b'', '':srv 366 me #x :End of NAMES list'']
        (init st0))
     = [handle_response 353 '':srv 353 me = #x :a b'',
        handle_response 366 '':srv 366 me #x :End of NAMES list'',
        handle_own_join ''#x'']"
proof -
  have a: "connected (state (init st0))" by (simp add: init_def st0_def)
  have b: "channel_prefixed ''#x''" by (simp add: channel_prefixed_def startswith_def)
  have c: "channels (state (init st0)) ''#x'' = None" by (simp add: init_def st0_def)
  have d: "pending_channel_info (init st0) ''#x'' = None" by (simp add: init_def)
  have e: "parse spec_modules '':me!u@h JOIN #x'' = Inr (Some ''me!u@h'', Cmd_JOIN, ''#x'' # [])"
    by (simp add: spec_parser_defs Cmd_JOIN_def)
  have f: "parse_user_prefix spec_modules (Some ''me!u@h'') = Inr (nick (state (init st0)))"
    by (simp add: spec_parser_defs init_def st0_def)
  have g: "parse spec_modules '':srv 353 me = #x :a b'' = Inr (Some ''srv'', ''353'', [''me'', ''='', ''#x'', ''a b''])"
    by (simp add: spec_parser_defs)
  have h: "parse_name_list spec_modules [''me'', ''='', ''#x'', ''a b''] = Inr (''#x'', [''a'', ''b''])"
    by (simp add: spec_parser_defs)
  have i: "parse spec_modules '':srv 366 me #x :End of NAMES list''
      = Inr (Some ''srv'', ''366'', ''me'' # ''#x'' # [''End of NAMES list''])"
    by (simp add: spec_parser_defs)
  have s: "handler_calls (init st0) = []" by (simp add: init_def)
  show ?thesis
    using join_handshake [OF a b c d e f g h i] by (simp add: s)
qed

lemma state_update_simps [simp]:
  "pending_channel_info (p\<lparr>state := s\<rparr>) = pending_channel_info p"
  by simp

lemma pending_disjoint_call [simp]: "pending_disjoint (call ev p) = pending_disjoint p"
  by (simp add: pending_disjoint_def)

lemma dom_map_option_comp [simp]: "dom (\<lambda>c. map_option f (m c)) = dom m"
  by (auto simp add: dom_def)

lemma pending_disjoint_set_topic:
  "pending_disjoint p \<Longrightarrow> pending_disjoint (set_topic c t p)"
  by (auto simp add: set_topic_def pending_disjoint_def split: option.splits)

lemma pending_disjoint_numeric_reply:
  "pending_disjoint p \<Longrightarrow> pending_disjoint (snd (process_numeric_reply M num prefix params raw p))"
  by (auto simp add: process_numeric_reply_def Let_def pending_disjoint_def set_topic_def
      split: sum.splits option.splits prod.splits)

lemma pending_disjoint_numeric_error:
  "pending_disjoint p \<Longrightarrow> pending_disjoint (snd (process_numeric_error M num params raw p))"
  by (auto simp add: process_numeric_error_def Let_def split: option.splits)

lemma pending_disjoint_ping:
  "pending_disjoint p \<Longrightarrow> pending_disjoint (snd (process_ping params raw p))"
  by (auto simp add: process_ping_def split: sum.splits)

lemma privmsg_targets_frame [simp]:
  "state (privmsg_targets msg sender ts p) = state p"
  "pending_channel_info (privmsg_targets msg sender ts p) = pending_channel_info p"
  by (induction ts arbitrary: p) (auto split: option.splits)

lemma pending_disjoint_privmsg:
  "pending_disjoint p \<Longrightarrow> pending_disjoint (snd (process_privmsg M prefix params raw p))"
  by (auto simp add: process_privmsg_def pending_disjoint_def split: sum.splits option.splits)

lemma pending_disjoint_join:
  "pending_disjoint p \<Longrightarrow> pending_disjoint (snd (process_join M prefix params p))"
  by (auto simp add: process_join_def pending_disjoint_def split: sum.splits option.splits)

lemma pending_disjoint_part:
  "pending_disjoint p \<Longrightarrow> pending_disjoint (snd (process_part M prefix params p))"
  by (auto simp add: process_part_def pending_disjoint_def split: sum.splits option.splits)

lemma pending_disjoint_kick:
  "pending_disjoint p \<Longrightarrow> pending_disjoint (snd (process_kick M prefix params p))"
  by (auto simp add: process_kick_def Let_def pending_disjoint_def split: sum.splits option.splits)

lemma pending_disjoint_nick:
  "pending_disjoint p \<Longrightarrow> pending_disjoint (snd (process_nick M prefix params p))"
  by (auto simp add: process_nick_def Let_def pending_disjoint_def split: sum.splits option.splits)

lemma pending_disjoint_topic:
  "pending_disjoint p \<Longrightarrow> pending_disjoint (snd (process_topic prefix params p))"
  by (auto simp add: process_topic_def pending_disjoint_set_topic split: sum.splits)

lemma pending_disjoint_quit:
  "pending_disjoint p \<Longrightarrow> pending_disjoint (snd (process_quit M prefix params p))"
  by (auto simp add: process_quit_def Let_def pending_disjoint_def split: sum.splits option.splits)

lemma channel_mode_change_frame:
  "channels (state (snd (channel_mode_change c i mc p))) = channels (state p)"
  "pending_channel_info (snd (channel_mode_change c i mc p)) = pending_channel_info p"
  by (auto simp add: channel_mode_change_def split: sum.splits)

lemma channel_mode_changes_frame:
  "channels (state (snd (channel_mode_changes c i mcs p))) = channels (state p) \<and>
   pending_channel_info (snd (channel_mode_changes c i mcs p)) = pending_channel_info p"
proof (induction mcs arbitrary: p)
  case Nil
  then show ?case by simp
next
  case (Cons mc mcs)
  obtain r p' where s: "channel_mode_change c i mc p = (r, p')" by (cases "channel_mode_change c i mc p")
  have f: "channels (state p') = channels (state p)" "pending_channel_info p' = pending_channel_info p"
    using channel_mode_change_frame [of c i mc p] s by simp_all
  show ?case
  proof (cases r)
    case None
    then show ?thesis using s f Cons.IH [of p'] by simp
  next
    case (Some e)
    then show ?thesis using s f by simp
  qed
qed

lemma pending_disjoint_mode:
  "pending_disjoint p \<Longrightarrow> pending_disjoint (snd (process_mode M prefix params raw p))"
  by (auto simp add: process_mode_def process_channel_mode_def pending_disjoint_def
      channel_mode_changes_frame split: sum.splits option.splits)

lemmas pending_disjoint_handlers =
  pending_disjoint_numeric_reply pending_disjoint_numeric_error pending_disjoint_ping
  pending_disjoint_privmsg pending_disjoint_join pending_disjoint_part pending_disjoint_mode
  pending_disjoint_kick pending_disjoint_nick pending_disjoint_topic pending_disjoint_quit

text \<open>
  A property of what \<^verbatim>\<open>dispatch\<close> returns follows from the same property of every
  method it can call and of every exception it can raise itself.
\<close>

lemma dispatch_cases:
  assumes raised: "\<And>e. P (Some e, p)"
    and "\<And>prefix command params num. parse M message = Inr (prefix, command, params) \<Longrightarrow>
           three_digits_match command \<Longrightarrow> P (process_numeric_reply M num prefix params message p)"
    and "\<And>prefix command params num. parse M message = Inr (prefix, command, params) \<Longrightarrow>
           three_digits_match command \<Longrightarrow> P (process_numeric_error M num params message p)"
    and "\<And>prefix params. parse M message = Inr (prefix, Cmd_PING, params) \<Longrightarrow>
           P (process_ping params message p)"
    and "\<And>prefix params. parse M message = Inr (prefix, Cmd_PRIVMSG, params) \<Longrightarrow>
           P (process_privmsg M prefix params message p)"
    and "\<And>prefix params. parse M message = Inr (prefix, Cmd_JOIN, params) \<Longrightarrow>
           P (process_join M prefix params p)"
    and "\<And>prefix params. parse M message = Inr (prefix, Cmd_PART, params) \<Longrightarrow>
           P (process_part M prefix params p)"
    and "\<And>prefix params. parse M message = Inr (prefix, Cmd_MODE, params) \<Longrightarrow>
           P (process_mode M prefix params message p)"
    and "\<And>prefix params. parse M message = Inr (prefix, Cmd_KICK, params) \<Longrightarrow>
           P (process_kick M prefix params p)"
    and "\<And>prefix params. parse M message = Inr (prefix, Cmd_NICK, params) \<Longrightarrow>
           P (process_nick M prefix params p)"
    and "\<And>prefix params. parse M message = Inr (prefix, Cmd_TOPIC, params) \<Longrightarrow>
           P (process_topic prefix params p)"
    and "\<And>prefix params. parse M message = Inr (prefix, Cmd_QUIT, params) \<Longrightarrow>
           P (process_quit M prefix params p)"
  shows "P (dispatch M message p)"
proof (cases "parse M message")
  case (Inl e)
  then show ?thesis using raised by (simp add: dispatch_def)
next
  case (Inr x)
  obtain prefix command params where x: "x = (prefix, command, params)" by (cases x) auto
  note parsed = Inr [unfolded x]
  have ite: "\<And>c a b. (c \<Longrightarrow> P a) \<Longrightarrow> (\<not> c \<Longrightarrow> P b) \<Longrightarrow> P (if c then a else b)"
    by simp
  have num: "P (case python_int command of
               Inl e \<Rightarrow> (Some e, p)
             | Inr numeric_reply \<Rightarrow>
                 if numeric_reply \<le> 399 then process_numeric_reply M numeric_reply prefix params message p
                 else if 400 \<le> numeric_reply \<and> numeric_reply \<le> 599
                 then process_numeric_error M numeric_reply params message p
                 else (Some (MessageHandlingError message), p))"
    if "three_digits_match command"
    using assms(1) assms(2) [OF parsed that] assms(3) [OF parsed that]
    by (cases "python_int command") simp_all
  show ?thesis
    unfolding dispatch_def parsed
    apply (simp only: sum.case prod.case)
    apply (rule ite, erule num)
    apply (rule ite, rule assms(4), use parsed in simp)
    apply (rule ite, rule assms(5), use parsed in simp)
    apply (rule ite, rule assms(6), use parsed in simp)
    apply (rule ite, rule assms(7), use parsed in simp)
    apply (rule ite, rule assms(8), use parsed in simp)
    apply (rule ite, rule assms(9), use parsed in simp)
    apply (rule ite, rule assms(10), use parsed in simp)
    apply (rule ite, rule assms(11), use parsed in simp)
    apply (rule ite, rule assms(12), use parsed in simp)
    apply (rule raised)
    done
qed

text \<open>
  Around \<^verbatim>\<open>dispatch\<close>, \<^verbatim>\<open>process\<close> only adds a call on the handler: the client state
  and the pending table are those \<^verbatim>\<open>dispatch\<close> left.
\<close>

lemma process_frame:
  assumes "connected (state p)"
  shows "state (snd (process M message p)) = state (snd (dispatch M message p))"
    and "pending_channel_info (snd (process M message p)) = pending_channel_info (snd (dispatch M message p))"
proof -
  obtain r p' where d: "dispatch M message p = (r, p')" by (cases "dispatch M message p")
  show "state (snd (process M message p)) = state (snd (dispatch M message p))"
  proof (cases r)
    case None
    then show ?thesis using d assms by (simp add: process_def)
  next
    case (Some e)
    then show ?thesis using d assms by (cases e) (simp_all add: process_def)
  qed
  show "pending_channel_info (snd (process M message p)) = pending_channel_info (snd (dispatch M message p))"
  proof (cases r)
    case None
    then show ?thesis using d assms by (simp add: process_def)
  next
    case (Some e)
    then show ?thesis using d assms by (cases e) (simp_all add: process_def)
  qed
qed

lemma process_unconnected:
  "\<not> connected (state p) \<Longrightarrow> process M message p = (Some AssertionError, p)"
  by (simp add: process_def)

lemma pending_disjoint_dispatch:
  assumes "pending_disjoint p"
  shows "pending_disjoint (snd (dispatch M message p))"
  by (rule dispatch_cases) (simp_all add: assms pending_disjoint_handlers)

lemma pending_disjoint_process:
  assumes "pending_disjoint p"
  shows "pending_disjoint (snd (process M message p))"
proof (cases "connected (state p)")
  case True
  then show ?thesis
    using pending_disjoint_dispatch [OF assms, of M message]
    by (simp add: pending_disjoint_def process_frame)
next
  case False
  then show ?thesis using assms by (simp add: process_unconnected)
qed

lemma pending_disjoint_process_all:
  "pending_disjoint p \<Longrightarrow> pending_disjoint (process_all M ms p)"
  by (induction ms arbitrary: p) (simp_all add: pending_disjoint_process)

text \<open>
  Claim C2. In every run of a processor from its creation, on any client state and any
  sequence of messages, no channel name is a key of the pending table and of
  \<^verbatim>\<open>channels\<close> at once.
\<close>

theorem pending_never_occupied:
  "dom (pending_channel_info (process_all M ms (init st)))
     \<inter> dom (channels (state (process_all M ms (init st)))) = {}"
proof -
  have "pending_disjoint (init st)" by (simp add: pending_disjoint_def init_def)
  then have "pending_disjoint (process_all M ms (init st))" by (rule pending_disjoint_process_all)
  then show ?thesis by (simp add: pending_disjoint_def)
qed

text \<open>
  The two steps the claim names: this client's own JOIN makes a channel pending only when
  it is not a key of \<^verbatim>\<open>channels\<close>, and the end of names takes the channel out of the
  pending table in the step that puts it into \<^verbatim>\<open>channels\<close>.
\<close>

lemma own_join_pending_only_if_unoccupied:
  assumes "parse_user_prefix M prefix = Inr (nick (state p))"
  shows "process_join M prefix (c # ps) p
           = (None, if channels (state p) c = None
                    then set_pending ((pending_channel_info p)(c \<mapsto> ChannelInfo c)) p else p)"
  using assms by (simp add: process_join_def index_def)

lemma endofnames_moves_pending:
  assumes "channel_prefixed c" and "pending_channel_info p c = Some ci"
  shows "pending_channel_info (snd (process_numeric_reply M Rpl_ENDOFNAMES prefix (x # c # ps) raw p)) c = None \<and>
         channels (state (snd (process_numeric_reply M Rpl_ENDOFNAMES prefix (x # c # ps) raw p))) c = Some ci"
  using assms by (simp add: process_numeric_reply_def rpl_defs index_def)

subsection \<open>The status lists\<close>

lemma set_topic_status [simp]:
  "operator_in (state (set_topic c t p)) = operator_in (state p)"
  "has_voice_in (state (set_topic c t p)) = has_voice_in (state p)"
  "dom (channels (state (set_topic c t p))) = dom (channels (state p))"
  by (auto simp add: set_topic_def split: option.splits)

lemma same_status_handlers:
  "same_status p (snd (process_numeric_reply M num prefix params raw p))"
  "same_status p (snd (process_numeric_error M num params raw p))"
  "same_status p (snd (process_ping params raw p))"
  "same_status p (snd (process_privmsg M prefix params raw p))"
  "same_status p (snd (process_join M prefix params p))"
  "same_status p (snd (process_part M prefix params p))"
  "same_status p (snd (process_kick M prefix params p))"
  "same_status p (snd (process_nick M prefix params p))"
  "same_status p (snd (process_topic prefix params p))"
  "same_status p (snd (process_quit M prefix params p))"
  by (auto simp add: same_status_def process_numeric_reply_def process_numeric_error_def
      process_ping_def process_privmsg_def process_join_def process_part_def process_kick_def
      process_nick_def process_topic_def process_quit_def Let_def
      split: sum.splits option.splits)

lemma keeps_channels_handlers:
  "keeps_channels p (snd (process_numeric_reply M num prefix params raw p))"
  "keeps_channels p (snd (process_numeric_error M num params raw p))"
  "keeps_channels p (snd (process_ping params raw p))"
  "keeps_channels p (snd (process_privmsg M prefix params raw p))"
  "keeps_channels p (snd (process_join M prefix params p))"
  "keeps_channels p (snd (process_nick M prefix params p))"
  "keeps_channels p (snd (process_topic prefix params p))"
  "keeps_channels p (snd (process_quit M prefix params p))"
  by (auto simp add: keeps_channels_def process_numeric_reply_def process_numeric_error_def
      process_ping_def process_privmsg_def process_join_def
      process_nick_def process_topic_def process_quit_def Let_def
      split: sum.splits option.splits)

lemma operator_of_x_facts:
  "connected (state operator_of_x)"
  "operator_in (state operator_of_x) = [''#x'']"
  "has_voice_in (state operator_of_x) = []"
  "channels (state operator_of_x) ''#x'' \<noteq> None"
  "handler_calls operator_of_x
     = [handle_response 353 '':srv 353 me = #x :a b'',
        handle_response 366 '':srv 366 me #x :End of NAMES list'',
        handle_own_join ''#x'', handle_own_got_op ''#x'' ''op'']"
  by code_simp+

lemma parted_facts:
  "fst (process spec_modules '':me!u@h PART #x'' operator_of_x) = None"
  "operator_in (state (snd (process spec_modules '':me!u@h PART #x'' operator_of_x))) = [''#x'']"
  "channels (state (snd (process spec_modules '':me!u@h PART #x'' operator_of_x))) ''#x'' = None"
  by code_simp+

lemma command_of_parsed:
  "parse M message = Inr (prefix, command, params) \<Longrightarrow> command_of M message = Some command"
  by (simp add: command_of_def)

lemma same_status_refl [simp]: "same_status p p"
  by (simp add: same_status_def)

lemma keeps_channels_refl [simp]: "keeps_channels p p"
  by (simp add: keeps_channels_def)

lemma same_status_dispatch:
  assumes "command_of M message \<noteq> Some Cmd_MODE"
  shows "same_status p (snd (dispatch M message p))"
proof (rule dispatch_cases)
  fix prefix params
  assume "parse M message = Inr (prefix, Cmd_MODE, params)"
  then have "command_of M message = Some Cmd_MODE" by (rule command_of_parsed)
  then show "same_status p (snd (process_mode M prefix params message p))"
    using assms by simp
qed (simp_all add: same_status_handlers)

lemma keeps_channels_mode:
  "keeps_channels p (snd (process_mode M prefix params raw p))"
  by (auto simp add: keeps_channels_def process_mode_def process_channel_mode_def
      channel_mode_changes_frame split: sum.splits option.splits)

lemma keeps_channels_dispatch:
  assumes "command_of M message \<noteq> Some Cmd_PART" and "command_of M message \<noteq> Some Cmd_KICK"
  shows "keeps_channels p (snd (dispatch M message p))"
proof (rule dispatch_cases)
  fix prefix params
  assume "parse M message = Inr (prefix, Cmd_PART, params)"
  then have "command_of M message = Some Cmd_PART" by (rule command_of_parsed)
  then show "keeps_channels p (snd (process_part M prefix params p))"
    using assms by simp
next
  fix prefix params
  assume "parse M message = Inr (prefix, Cmd_KICK, params)"
  then have "command_of M message = Some Cmd_KICK" by (rule command_of_parsed)
  then show "keeps_channels p (snd (process_kick M prefix params p))"
    using assms by simp
qed (simp_all add: keeps_channels_handlers keeps_channels_mode)

lemma same_status_process:
  assumes "command_of M message \<noteq> Some Cmd_MODE"
  shows "same_status p (snd (process M message p))"
proof (cases "connected (state p)")
  case True
  then show ?thesis
    using same_status_dispatch [OF assms, of p] by (simp add: same_status_def process_frame)
next
  case False
  then show ?thesis by (simp add: process_unconnected)
qed

lemma keeps_channels_process:
  assumes "command_of M message \<noteq> Some Cmd_PART" and "command_of M message \<noteq> Some Cmd_KICK"
  shows "keeps_channels p (snd (process M message p))"
proof (cases "connected (state p)")
  case True
  then show ?thesis
    using keeps_channels_dispatch [OF assms, of p] by (simp add: keeps_channels_def process_frame)
next
  case False
  then show ?thesis by (simp add: process_unconnected)
qed

text \<open>
  Claim C1, as the spec states it: after every processed message the channels of
  \<^verbatim>\<open>operator_in\<close> and \<^verbatim>\<open>has_voice_in\<close> are keys of \<^verbatim>\<open>channels\<close>. It fails. The client
  \<^verbatim>\<open>me\<close> joined \<^verbatim>\<open>#x\<close> and was made operator there, so the inclusion holds; its own PART
  for \<^verbatim>\<open>#x\<close> returns normally, deletes \<^verbatim>\<open>#x\<close> from \<^verbatim>\<open>channels\<close> and leaves it in
  \<^verbatim>\<open>operator_in\<close>.
\<close>

theorem status_within_channels_counterexample:
  "status_within_channels operator_of_x \<and>
   fst (process spec_modules '':me!u@h PART #x'' operator_of_x) = None \<and>
   \<not> status_within_channels (snd (process spec_modules '':me!u@h PART #x'' operator_of_x))"
proof -
  have "status_within_channels operator_of_x"
    using operator_of_x_facts(4) by (auto simp add: status_within_channels_def operator_of_x_facts(2,3))
  moreover have "\<not> status_within_channels (snd (process spec_modules '':me!u@h PART #x'' operator_of_x))"
    by (simp add: status_within_channels_def parted_facts(2) domIff parted_facts(3))
  ultimately show ?thesis using parted_facts(1) by simp
qed

lemma inclusion_from_frames:
  assumes "status_within_channels p" and "same_status p p'" and "keeps_channels p p'"
  shows "status_within_channels p'"
  using assms unfolding same_status_def keeps_channels_def status_within_channels_def
  by (metis subset_trans)

lemma leaves_channel_part:
  assumes "parse M message = Inr (prefix, Cmd_PART, params)"
  shows "leaves_channel M message p
           = (case parse_user_prefix M prefix of
                Inl e \<Rightarrow> None
              | Inr n \<Rightarrow>
                  if nick (state p) = n then (case params of [] \<Rightarrow> None | channel # _ \<Rightarrow> Some channel)
                  else None)"
  using assms by (simp add: leaves_channel_def)

lemma leaves_channel_kick:
  assumes "parse M message = Inr (prefix, Cmd_KICK, params)"
  shows "leaves_channel M message p
           = (if 2 \<le> length params \<and> params ! 1 = nick (state p) then
               (case parse_user_prefix M prefix of Inl e \<Rightarrow> None | Inr initiator \<Rightarrow> Some (params ! 0))
             else None)"
  using assms by (simp add: leaves_channel_def) (simp add: cmd_defs)

lemma status_without_key:
  assumes "status_within_channels p"
    and "c \<notin> set (operator_in (state p))" and "c \<notin> set (has_voice_in (state p))"
  shows "status_within_channels (set_channels ((channels (state p))(c := None)) p)"
  using assms by (auto simp add: status_within_channels_def)

lemma status_call [simp]: "status_within_channels (call ev p) = status_within_channels p"
  by (simp add: status_within_channels_def)

lemma status_same_keys:
  assumes "status_within_channels p" and "channels (state p) c = Some ci"
  shows "status_within_channels (set_channels ((channels (state p))(c \<mapsto> ci')) p)"
  using assms by (auto simp add: status_within_channels_def)

lemma part_keeps_inclusion:
  assumes "status_within_channels p"
    and "parse M message = Inr (prefix, Cmd_PART, params)"
    and "\<not> departs_listed M message p"
  shows "status_within_channels (snd (process_part M prefix params p))"
proof (cases "parse_user_prefix M prefix")
  case (Inl e)
  then show ?thesis using assms(1) by (simp add: process_part_def)
next
  case n: (Inr n)
  show ?thesis
  proof (cases params)
    case Nil
    then show ?thesis using assms(1) n by (simp add: process_part_def index_def)
  next
    case (Cons channel rest)
    show ?thesis
    proof (cases "nick (state p) = n")
      case True
      then have "leaves_channel M message p = Some channel"
        using leaves_channel_part [OF assms(2), of p] n Cons by simp
      then have "channel \<notin> set (operator_in (state p))" "channel \<notin> set (has_voice_in (state p))"
        using assms(3) by (simp_all add: departs_listed_def)
      then show ?thesis
        using assms(1) n Cons True by (simp add: process_part_def index_def status_without_key)
    next
      case False
      then show ?thesis
        using assms(1) n Cons
        by (auto simp add: process_part_def index_def status_same_keys split: option.splits)
    qed
  qed
qed

lemma kick_keeps_inclusion:
  assumes "status_within_channels p"
    and "parse M message = Inr (prefix, Cmd_KICK, params)"
    and "\<not> departs_listed M message p"
  shows "status_within_channels (snd (process_kick M prefix params p))"
proof (cases "length params < 2")
  case True
  then show ?thesis using assms(1) by (simp add: process_kick_def)
next
  case long: False
  show ?thesis
  proof (cases "parse_user_prefix M prefix")
    case (Inl e)
    then show ?thesis using assms(1) long by (simp add: process_kick_def Let_def)
  next
    case i: (Inr initiator)
    show ?thesis
    proof (cases "params ! 1 = nick (state p)")
      case True
      then have "leaves_channel M message p = Some (params ! 0)"
        using leaves_channel_kick [OF assms(2), of p] i long by simp
      then have "params ! 0 \<notin> set (operator_in (state p))" "params ! 0 \<notin> set (has_voice_in (state p))"
        using assms(3) by (simp_all add: departs_listed_def)
      then show ?thesis
        using assms(1) i long True by (simp add: process_kick_def Let_def status_without_key)
    next
      case False
      then show ?thesis
        using assms(1) i long
        by (auto simp add: process_kick_def Let_def status_same_keys split: option.splits)
    qed
  qed
qed

text \<open>
  One mode change adds at most the channel to a status list, and only when it gives this
  client the status; it changes neither the nick nor \<^verbatim>\<open>channels\<close>.
\<close>

lemma channel_mode_change_lists:
  "set (operator_in (state (snd (channel_mode_change c i mc p))))
     \<subseteq> set (operator_in (state p)) \<union> (if own_grant (nick (state p)) mc then {c} else {}) \<and>
   set (has_voice_in (state (snd (channel_mode_change c i mc p))))
     \<subseteq> set (has_voice_in (state p)) \<union> (if own_grant (nick (state p)) mc then {c} else {}) \<and>
   nick (state (snd (channel_mode_change c i mc p))) = nick (state p)"
proof (cases "index (mode_params mc) 0")
  case (Inl e)
  then show ?thesis by (auto simp add: channel_mode_change_def)
next
  case (Inr user)
  have r: "set (remove1 c xs) \<subseteq> set xs" for xs :: "string list"
    by (rule set_remove1_subset)
  show ?thesis
    using Inr r [of "operator_in (state p)"] r [of "has_voice_in (state p)"]
    by (auto simp add: channel_mode_change_def own_grant_def)
qed

lemma channel_mode_changes_lists:
  "set (operator_in (state (snd (channel_mode_changes c i mcs p))))
     \<subseteq> set (operator_in (state p)) \<union> (if list_ex (own_grant (nick (state p))) mcs then {c} else {}) \<and>
   set (has_voice_in (state (snd (channel_mode_changes c i mcs p))))
     \<subseteq> set (has_voice_in (state p)) \<union> (if list_ex (own_grant (nick (state p))) mcs then {c} else {})"
proof (induction mcs arbitrary: p)
  case Nil
  then show ?case by simp
next
  case (Cons mc mcs)
  obtain r p' where s: "channel_mode_change c i mc p = (r, p')"
    by (cases "channel_mode_change c i mc p")
  have step:
    "set (operator_in (state p'))
       \<subseteq> set (operator_in (state p)) \<union> (if own_grant (nick (state p)) mc then {c} else {})"
    "set (has_voice_in (state p'))
       \<subseteq> set (has_voice_in (state p)) \<union> (if own_grant (nick (state p)) mc then {c} else {})"
    "nick (state p') = nick (state p)"
    using channel_mode_change_lists [of c i mc p] s by simp_all
  show ?case
  proof (cases r)
    case (Some e)
    then have "snd (channel_mode_changes c i (mc # mcs) p) = p'" using s by simp
    then show ?thesis using step(1,2) by (auto split: if_splits)
  next
    case None
    then have "snd (channel_mode_changes c i (mc # mcs) p) = snd (channel_mode_changes c i mcs p')"
      using s by simp
    then show ?thesis
      using Cons.IH [of p'] step by (auto split: if_splits)
  qed
qed

lemma process_mode_cases:
  "snd (process_mode M prefix params raw p) = p \<or>
   (\<exists>c i mcs. mode_channel M params = Some c \<and>
      parse_channel_mode_params M (drop 1 params) = Inr mcs \<and>
      snd (process_mode M prefix params raw p) = snd (channel_mode_changes c i mcs p))"
  by (auto simp add: process_mode_def mode_channel_def process_channel_mode_def
      split: sum.splits option.splits)

lemma mode_keeps_inclusion:
  assumes "status_within_channels p"
    and "parse M message = Inr (prefix, Cmd_MODE, params)"
    and "\<not> grants_off_channel M message p"
  shows "status_within_channels (snd (process_mode M prefix params message p))"
proof -
  consider "snd (process_mode M prefix params message p) = p"
    | c i mcs where "mode_channel M params = Some c"
        "parse_channel_mode_params M (drop 1 params) = Inr mcs"
        "snd (process_mode M prefix params message p) = snd (channel_mode_changes c i mcs p)"
    using process_mode_cases [of M prefix params message p] by blast
  then show ?thesis
  proof cases
    case 1
    then show ?thesis using assms(1) by simp
  next
    case 2
    let ?p' = "snd (channel_mode_changes c i mcs p)"
    have k: "channels (state ?p') = channels (state p)"
      using channel_mode_changes_frame [of c i mcs p] by simp
    have g: "channels (state p) c \<noteq> None \<or> \<not> list_ex (own_grant (nick (state p))) mcs"
      using assms(2,3) 2(1,2) by (auto simp add: grants_off_channel_def)
    have "set (operator_in (state ?p')) \<subseteq> dom (channels (state p))"
      "set (has_voice_in (state ?p')) \<subseteq> dom (channels (state p))"
      using channel_mode_changes_lists [of c i mcs p] assms(1) g
      by (auto simp add: status_within_channels_def split: if_splits)
    then show ?thesis using 2(3) k by (simp add: status_within_channels_def)
  qed
qed

lemma inclusion_dispatch:
  assumes "status_within_channels p"
    and "\<not> departs_listed M message p" and "\<not> grants_off_channel M message p"
  shows "status_within_channels (snd (dispatch M message p))"
proof (rule dispatch_cases)
  fix prefix params
  assume a: "parse M message = Inr (prefix, Cmd_PART, params)"
  show "status_within_channels (snd (process_part M prefix params p))"
    by (rule part_keeps_inclusion [OF assms(1) a assms(2)])
next
  fix prefix params
  assume a: "parse M message = Inr (prefix, Cmd_KICK, params)"
  show "status_within_channels (snd (process_kick M prefix params p))"
    by (rule kick_keeps_inclusion [OF assms(1) a assms(2)])
next
  fix prefix params
  assume a: "parse M message = Inr (prefix, Cmd_MODE, params)"
  show "status_within_channels (snd (process_mode M prefix params message p))"
    by (rule mode_keeps_inclusion [OF assms(1) a assms(3)])
qed (simp_all add: assms(1) inclusion_from_frames [OF assms(1)] same_status_handlers keeps_channels_handlers)

lemma inclusion_process:
  assumes "status_within_channels p"
    and "\<not> departs_listed M message p" and "\<not> grants_off_channel M message p"
  shows "status_within_channels (snd (process M message p))"
proof (cases "connected (state p)")
  case True
  then show ?thesis
    using inclusion_dispatch [OF assms] by (simp add: status_within_channels_def process_frame)
next
  case False
  then show ?thesis using assms(1) by (simp add: process_unconnected)
qed

text \<open>
  Claim C1, amended. Only a MODE message changes \<^verbatim>\<open>operator_in\<close> or \<^verbatim>\<open>has_voice_in\<close>:
  every other message leaves both lists as they were, so this client's own PART or KICK
  leaves the entry of the channel it deletes where it is. The inclusion of both lists in
  the keys of \<^verbatim>\<open>channels\<close> is preserved by every message but two kinds: this client's
  own PART or KICK for a channel of one of the lists, and a MODE for a channel that is
  not a key of \<^verbatim>\<open>channels\<close> which gives this client operator or voice status. A PART
  or KICK of another user, this client's own PART or KICK for a channel of neither list,
  and every MODE for an occupied channel preserve it.
\<close>

theorem status_inclusion_kept:
  "(command_of M message \<noteq> Some Cmd_MODE \<longrightarrow>
      operator_in (state (snd (process M message p))) = operator_in (state p) \<and>
      has_voice_in (state (snd (process M message p))) = has_voice_in (state p)) \<and>
   (status_within_channels p \<and> \<not> departs_listed M message p \<and> \<not> grants_off_channel M message p
      \<longrightarrow> status_within_channels (snd (process M message p)))"
proof -
  have "same_status p (snd (process M message p))" if "command_of M message \<noteq> Some Cmd_MODE"
    using that by (rule same_status_process)
  then show ?thesis
    using inclusion_process [of p M message] by (simp add: same_status_def)
qed

lemma operator_of_x_within: "status_within_channels operator_of_x"
  using operator_of_x_facts(4) by (auto simp add: status_within_channels_def operator_of_x_facts(2,3))

text \<open>
  The operator of \<^verbatim>\<open>#x\<close>: the PART of \<^verbatim>\<open>a\<close> from \<^verbatim>\<open>#x\<close> and a MODE that gives this
  client voice in \<^verbatim>\<open>#x\<close> both preserve the inclusion.
\<close>

theorem status_inclusion_kept_witness:
  "status_within_channels operator_of_x \<and>
   command_of spec_modules '':a!u@h PART #x'' = Some Cmd_PART \<and>
   \<not> departs_listed spec_modules '':a!u@h PART #x'' operator_of_x \<and>
   \<not> grants_off_channel spec_modules '':a!u@h PART #x'' operator_of_x \<and>
   operator_in (state (snd (process spec_modules '':a!u@h PART #x'' operator_of_x))) = [''#x''] \<and>
   status_within_channels (snd (process spec_modules '':a!u@h PART #x'' operator_of_x)) \<and>
   \<not> departs_listed spec_modules '':op!u@h MODE #x +v me'' operator_of_x \<and>
   \<not> grants_off_channel spec_modules '':op!u@h MODE #x +v me'' operator_of_x \<and>
   has_voice_in (state (snd (process spec_modules '':op!u@h MODE #x +v me'' operator_of_x))) = [''#x''] \<and>
   status_within_channels (snd (process spec_modules '':op!u@h MODE #x +v me'' operator_of_x))"
proof -
  have a: "command_of spec_modules '':a!u@h PART #x'' = Some Cmd_PART"
    by (simp add: command_of_def spec_parser_defs Cmd_PART_def)
  have a': "command_of spec_modules '':a!u@h PART #x'' \<noteq> Some Cmd_MODE"
    by (simp add: a cmd_defs)
  have b: "\<not> departs_listed spec_modules '':a!u@h PART #x'' operator_of_x"
    "\<not> grants_off_channel spec_modules '':a!u@h PART #x'' operator_of_x"
    by code_simp+
  have c: "\<not> departs_listed spec_modules '':op!u@h MODE #x +v me'' operator_of_x"
    "\<not> grants_off_channel spec_modules '':op!u@h MODE #x +v me'' operator_of_x"
    by code_simp+
  have d: "has_voice_in (state (snd (process spec_modules '':op!u@h MODE #x +v me'' operator_of_x))) = [''#x'']"
    by code_simp
  show ?thesis
    using status_inclusion_kept [of spec_modules "'':a!u@h PART #x''" operator_of_x]
      status_inclusion_kept [of spec_modules "'':op!u@h MODE #x +v me''" operator_of_x]
      operator_of_x_within a a' b c d
    by (simp add: operator_of_x_facts(2))
qed

text \<open>
  The two kinds of message that the amended claim leaves out do break the inclusion: this
  client's own KICK from \<^verbatim>\<open>#x\<close>, as its own PART does, and a MODE that makes it
  operator of \<^verbatim>\<open>#y\<close>, which it never joined.
\<close>

lemma own_kick_leaves_stale_status:
  "departs_listed spec_modules '':op!u@h KICK #x me'' operator_of_x \<and>
   \<not> status_within_channels (snd (process spec_modules '':op!u@h KICK #x me'' operator_of_x))"
proof -
  have "departs_listed spec_modules '':op!u@h KICK #x me'' operator_of_x"
    by code_simp
  moreover have
    "operator_in (state (snd (process spec_modules '':op!u@h KICK #x me'' operator_of_x))) = [''#x'']"
    "channels (state (snd (process spec_modules '':op!u@h KICK #x me'' operator_of_x))) ''#x'' = None"
    by code_simp+
  ultimately show ?thesis by (simp add: status_within_channels_def domIff)
qed

lemma grant_off_channel_breaks_inclusion:
  "status_within_channels (init st0) \<and>
   grants_off_channel spec_modules '':op!u@h MODE #y +o me'' (init st0) \<and>
   \<not> status_within_channels (snd (process spec_modules '':op!u@h MODE #y +o me'' (init st0)))"
proof -
  have "status_within_channels (init st0)"
    by (simp add: status_within_channels_def init_def st0_def)
  moreover have "grants_off_channel spec_modules '':op!u@h MODE #y +o me'' (init st0)"
    by code_simp
  moreover have
    "operator_in (state (snd (process spec_modules '':op!u@h MODE #y +o me'' (init st0)))) = [''#y'']"
    "channels (state (snd (process spec_modules '':op!u@h MODE #y +o me'' (init st0)))) ''#y'' = None"
    by code_simp+
  ultimately show ?thesis by (simp add: status_within_channels_def domIff)
qed

section \<open>Properties of the connection\<close>

lemmas connection_defs = established_def connection_made_def run_def new_connection_def
  terminate_def logging_def iteration_end_def

lemma ascii_simps [simp]: "ascii [] = []" "ascii (x # xs) = of_char x # ascii xs"
  by (simp_all add: ascii_def)

text \<open>What holds of \<^verbatim>\<open>terminate\<close>: it does nothing unless the loop is running.\<close>

lemma terminate_not_running: "\<not> loop_running c \<Longrightarrow> terminate c = c"
  by (simp add: terminate_def)

lemma terminate_before_start: "terminate new_connection = new_connection"
  by (simp add: terminate_def new_connection_def)

lemma terminate_after_loop_stopped:
  "terminate (iteration_end (terminate c)) = iteration_end (terminate c)"
  by (simp add: terminate_def iteration_end_def)

lemma terminate_running:
  "loop_running c \<Longrightarrow> shutdowns (terminate c) = Suc (shutdowns c) \<and> loop_running (terminate c)"
  by (simp add: terminate_def)

text \<open>
  Claim C5. The claim holds of the code only when the loop leaves its iteration between
  two triggers. On an established connection, two calls of \<^verbatim>\<open>terminate\<close> within one
  iteration of the loop call \<^verbatim>\<open>connection_shutdown\<close> twice: directly, and when one block
  of data carries two lines at each of which the client calls \<^verbatim>\<open>terminate\<close>.
\<close>

theorem terminate_twice_shuts_down_twice:
  "shutdowns established = 0 \<and>
   shutdowns (terminate (terminate established)) = 2 \<and>
   shutdowns (data_received quit_on_request two_quits established) = 2"
proof -
  have 1: "shutdowns established = 0"
    by (simp add: connection_defs)
  have 2: "shutdowns (terminate (terminate established)) = 2"
    by (simp add: connection_defs)
  have d: "bytes_decode decoding_error_handler two_quits established = (Inr two_quits, established)"
    by (simp add: two_quits_def bytes_decode_def utf8_next_def)
  have s: "splitlines two_quits = [ascii ''quit'', ascii ''quit'']"
    by (simp add: two_quits_def splitlines_def line_boundary_def)
  have 3: "shutdowns (data_received quit_on_request two_quits established) = 2"
    by (simp add: data_received_def d s quit_on_request_def) (simp add: connection_defs)
  show ?thesis using 1 2 3 by simp
qed

text \<open>What holds of \<^verbatim>\<open>send_message\<close>.\<close>

lemma send_message_not_running:
  "\<not> loop_running c \<Longrightarrow> send_message message c = (Some (NotConnectedError ''TODO''), c)"
  by (simp add: send_message_def)

lemma send_message_after_loop_stopped:
  "send_message message (iteration_end (terminate c))
     = (Some (NotConnectedError ''TODO''), iteration_end (terminate c))"
  by (simp add: send_message_def terminate_def iteration_end_def)

lemma send_message_connected:
  assumes "loop_running c" and "transport c = Some written"
    and "str_encode (message @ [13, 10]) = Inr data"
  shows "fst (send_message message c) = None \<and>
         transport (snd (send_message message c)) = Some (written @ [data])"
  using assms by (simp add: send_message_def logging_def Let_def)

text \<open>
  Claim C6. The claim holds of the code once the loop has stopped, and while the
  connection is established. Between a call of \<^verbatim>\<open>terminate\<close> and the end of the
  iteration of the loop in which it was called, \<^verbatim>\<open>send_message\<close> raises nothing and
  writes the message to the transport.
\<close>

theorem send_message_after_terminate_writes:
  "fst (send_message (ascii ''QUIT'') (terminate established)) = None \<and>
   transport (snd (send_message (ascii ''QUIT'') (terminate established)))
     = Some [ascii ''QUIT'' @ [13, 10]] \<and>
   shutdowns (terminate established) = 1"
  by (simp add: send_message_def connection_defs Let_def encode_char_def)

lemma decoding_error_handler_step:
  "decoding_error_handler reason c
     = (Inr [0xFFFD], c\<lparr>logger := logger c @ item_log (Malformed reason)\<rparr>)"
  by (simp add: decoding_error_handler_def logging_def item_log_def del: ascii_simps)

lemma decode_items_replacing:
  assumes "\<And>reason c. h reason c = (Inr [0xFFFD], c\<lparr>logger := logger c @ item_log (Malformed reason)\<rparr>)"
  shows "decode_items h items c
     = (Inr (concat (map item_text items)), c\<lparr>logger := logger c @ concat (map item_log items)\<rparr>)"
proof (induction items arbitrary: c)
  case Nil
  then show ?case by simp
next
  case (Cons item items)
  show ?case
  proof (cases item)
    case (Decoded cp)
    then show ?thesis by (simp add: Cons.IH item_text_def item_log_def)
  next
    case (Malformed reason)
    then show ?thesis
      by (simp add: Cons.IH assms [of reason c] item_text_def)
  qed
qed

lemma bytes_decode_handler:
  "bytes_decode decoding_error_handler data c
     = (Inr (decoded_text data), c\<lparr>logger := logger c @ concat (map item_log (utf8_scan data))\<rparr>)"
  unfolding bytes_decode_def decoded_text_def
  by (rule decode_items_replacing) (rule decoding_error_handler_step)

lemma not_continuation_10 [simp]: "\<not> continuation 10" "\<not> second_of3 b 10" "\<not> second_of4 b 10"
  by (simp_all add: continuation_def second_of3_def second_of4_def)

lemma utf8_next_line_feed:
  "\<exists>bs'. snd (utf8_next b (bs @ 10 # rest)) = bs' @ 10 # rest \<and> length bs' \<le> length bs"
proof (cases bs)
  case Nil
  then show ?thesis by (simp add: utf8_next_def)
next
  case b1: (Cons c cs)
  show ?thesis
  proof (cases cs)
    case Nil
    then show ?thesis using b1 by (simp add: utf8_next_def)
  next
    case b2: (Cons d ds)
    show ?thesis
    proof (cases ds)
      case Nil
      then show ?thesis using b1 b2 by (simp add: utf8_next_def)
    next
      case (Cons e es)
      then show ?thesis using b1 b2 by (simp add: utf8_next_def)
    qed
  qed
qed

lemma utf8_scan_line_feed:
  "\<exists>items. utf8_scan (pre @ 10 # rest) = items @ Decoded 10 # utf8_scan rest"
proof (induction "length pre" arbitrary: pre rule: less_induct)
  case less
  show ?case
  proof (cases pre)
    case Nil
    then show ?thesis by (simp add: utf8_next_def)
  next
    case (Cons b bs)
    obtain bs' where n: "snd (utf8_next b (bs @ 10 # rest)) = bs' @ 10 # rest" "length bs' \<le> length bs"
      using utf8_next_line_feed by blast
    have "length bs' < length pre" using n(2) Cons by simp
    then obtain items where "utf8_scan (bs' @ 10 # rest) = items @ Decoded 10 # utf8_scan rest"
      using less by blast
    then have "utf8_scan (pre @ 10 # rest)
        = (fst (utf8_next b (bs @ 10 # rest)) # items) @ Decoded 10 # utf8_scan rest"
      using Cons n(1) by simp
    then show ?thesis by blast
  qed
qed

lemma enc2:
  assumes "0x80 \<le> cp" "cp < 0x800"
  shows "utf8_next (0xC0 + cp div 64) ([0x80 + cp mod 64] @ rest) = (Decoded cp, rest)"
proof -
  have "0xC2 \<le> 0xC0 + cp div 64" "0xC0 + cp div 64 \<le> 0xDF" using assms by simp_all
  then show ?thesis by (simp add: utf8_next_def continuation_def)
qed

lemma digits64: "(x::nat) div 64 * 64 + x mod 64 = x"
  by simp

lemma split3: "(cp::nat) div 4096 * 4096 + (cp div 64) mod 64 * 64 + cp mod 64 = cp"
proof -
  have h: "cp div 4096 = cp div 64 div 64" by (simp add: div_mult2_eq [symmetric])
  have "cp div 64 div 64 * 4096 + (cp div 64) mod 64 * 64
      = (cp div 64 div 64 * 64 + (cp div 64) mod 64) * 64"
    by (simp only: add_mult_distrib mult.assoc)
  also have "\<dots> = cp div 64 * 64" by (simp only: digits64)
  finally show ?thesis unfolding h by (simp only: digits64)
qed

lemma split4:
  "(cp::nat) div 262144 * 262144 + (cp div 4096) mod 64 * 4096 + (cp div 64) mod 64 * 64 + cp mod 64 = cp"
proof -
  have h: "cp div 262144 = cp div 4096 div 64" by (simp add: div_mult2_eq [symmetric])
  have "cp div 4096 div 64 * 262144 + (cp div 4096) mod 64 * 4096
      = (cp div 4096 div 64 * 64 + (cp div 4096) mod 64) * 4096"
    by (simp only: add_mult_distrib mult.assoc)
  also have "\<dots> = cp div 4096 * 4096" by (simp only: digits64)
  finally show ?thesis unfolding h using split3 [of cp] by (simp only:)
qed

lemma low3: "2048 \<le> (cp::nat) \<Longrightarrow> cp div 4096 = 0 \<Longrightarrow> 32 \<le> (cp div 64) mod 64"
proof -
  assume a: "2048 \<le> cp" "cp div 4096 = 0"
  then have "cp < 4096" by (simp add: div_eq_0_iff)
  then have "cp div 64 < 64" by (simp add: less_mult_imp_div_less)
  moreover have "32 \<le> cp div 64" using a(1) by (simp add: le_div_geq) 
  ultimately show ?thesis by simp
qed

lemma high3: "(cp::nat) div 4096 = 13 \<Longrightarrow> cp < 55296 \<Longrightarrow> (cp div 64) mod 64 \<le> 31"
proof -
  assume a: "cp div 4096 = 13" "cp < 55296"
  have h: "cp div 4096 = cp div 64 div 64" by (simp add: div_mult2_eq [symmetric])
  have "cp div 64 div 64 * 64 + (cp div 64) mod 64 = cp div 64" by (rule digits64)
  moreover have "cp div 64 div 64 = 13" using a(1) h by simp
  ultimately have "13 * 64 + (cp div 64) mod 64 = cp div 64" by (simp only:)
  moreover have "cp div 64 < 864" using a(2) by (simp add: less_mult_imp_div_less)
  ultimately show ?thesis by linarith
qed

lemma low4: "65536 \<le> (cp::nat) \<Longrightarrow> cp div 262144 = 0 \<Longrightarrow> 16 \<le> (cp div 4096) mod 64"
proof -
  assume a: "65536 \<le> cp" "cp div 262144 = 0"
  then have "cp < 262144" by (simp add: div_eq_0_iff)
  then have "cp div 4096 < 64" by (simp add: less_mult_imp_div_less)
  moreover have "16 \<le> cp div 4096" using a(1) by (simp add: le_div_geq)
  ultimately show ?thesis by simp
qed

lemma high4: "(cp::nat) div 262144 = 4 \<Longrightarrow> cp < 1114112 \<Longrightarrow> (cp div 4096) mod 64 \<le> 15"
proof -
  assume a: "cp div 262144 = 4" "cp < 1114112"
  have h: "cp div 262144 = cp div 4096 div 64" by (simp add: div_mult2_eq [symmetric])
  have "cp div 4096 div 64 * 64 + (cp div 4096) mod 64 = cp div 4096" by (rule digits64)
  moreover have "cp div 4096 div 64 = 4" using a(1) h by simp
  ultimately have "4 * 64 + (cp div 4096) mod 64 = cp div 4096" by (simp only:)
  moreover have "cp div 4096 < 272" using a(2) by (simp add: less_mult_imp_div_less)
  ultimately show ?thesis by linarith
qed

lemma lead3: "(cp::nat) < 65536 \<Longrightarrow> cp div 4096 \<le> 15"
  by (simp add: less_mult_imp_div_less Suc_le_eq flip: less_Suc_eq_le)

lemma lead4: "(cp::nat) < 1114112 \<Longrightarrow> cp div 262144 \<le> 4"
  by (simp add: less_mult_imp_div_less flip: less_Suc_eq_le)

lemma enc3:
  assumes "0x800 \<le> cp" "cp < 0x10000" "\<not> (0xD800 \<le> cp \<and> cp \<le> 0xDFFF)"
  shows "utf8_next (0xE0 + cp div 4096) ([0x80 + (cp div 64) mod 64, 0x80 + cp mod 64] @ rest)
           = (Decoded cp, rest)"
proof -
  have l: "cp div 4096 \<le> 15" using assms(2) by (simp add: lead3)
  have s: "second_of3 (0xE0 + cp div 4096) (0x80 + (cp div 64) mod 64)"
  proof -
    have 1: "32 \<le> (cp div 64) mod 64" if "cp div 4096 = 0"
      using assms(1) that by (simp add: low3)
    have 2: "(cp div 64) mod 64 \<le> 31" if "cp div 4096 = 13"
    proof -
      have "cp div 4096 * 4096 \<le> cp" by simp
      then have "53248 \<le> cp" using that by simp
      moreover have "cp < 57344"
      proof (rule ccontr)
        assume "\<not> cp < 57344"
        then have "57344 \<le> cp" by simp
        then have "57344 div 4096 \<le> cp div 4096" by (rule div_le_mono)
        then show False using that by simp
      qed
      ultimately have "cp < 55296" using assms(3) by linarith
      then show ?thesis using that by (simp add: high3)
    qed
    have m: "(cp div 64) mod 64 < 64" by simp
    show ?thesis using 1 2 m unfolding second_of3_def continuation_def by auto
  qed
  have v: "cp div 4096 * 4096 + (cp div 64) mod 64 * 64 + cp mod 64 = cp" by (rule split3)
  have m: "cp mod 64 \<le> 63"
    by (simp flip: less_Suc_eq_le)
  show ?thesis
    using l s v m by (simp add: utf8_next_def continuation_def)
qed

lemma enc4:
  assumes "0x10000 \<le> cp" "cp < 0x110000"
  shows "utf8_next (0xF0 + cp div 262144)
           ([0x80 + (cp div 4096) mod 64, 0x80 + (cp div 64) mod 64, 0x80 + cp mod 64] @ rest)
           = (Decoded cp, rest)"
proof -
  have l: "cp div 262144 \<le> 4" using assms(2) by (simp add: lead4)
  have s: "second_of4 (0xF0 + cp div 262144) (0x80 + (cp div 4096) mod 64)"
  proof -
    have 1: "16 \<le> (cp div 4096) mod 64" if "cp div 262144 = 0"
      using assms(1) that by (simp add: low4)
    have 2: "(cp div 4096) mod 64 \<le> 15" if "cp div 262144 = 4"
      using assms(2) that by (simp add: high4)
    have m: "(cp div 4096) mod 64 < 64" by simp
    show ?thesis using 1 2 m unfolding second_of4_def continuation_def by auto
  qed
  have v: "cp div 262144 * 262144 + (cp div 4096) mod 64 * 4096 + (cp div 64) mod 64 * 64 + cp mod 64 = cp"
    by (rule split4)
  have m: "cp mod 64 \<le> 63" "(cp div 64) mod 64 \<le> 63"
    by (simp_all flip: less_Suc_eq_le)
  show ?thesis
    using l s v m by (simp add: utf8_next_def continuation_def)
qed

lemma utf8_next_encode_char:
  assumes "encode_char cp = Inr bs" and "cp < 0x110000"
  shows "\<exists>b bs'. bs = b # bs' \<and> utf8_next b (bs' @ rest) = (Decoded cp, rest)"
proof -
  consider "cp < 0x80" | "0x80 \<le> cp" "cp < 0x800" | "0x800 \<le> cp" "cp < 0x10000"
    | "0x10000 \<le> cp" by linarith
  then show ?thesis
  proof cases
    case 1
    then have "bs = [cp]" using assms by (auto simp add: encode_char_def)
    then show ?thesis using 1 by (simp add: utf8_next_def)
  next
    case 2
    then have "bs = [0xC0 + cp div 64, 0x80 + cp mod 64]"
      using assms by (auto simp add: encode_char_def)
    then show ?thesis using enc2 [OF 2, of rest] by simp
  next
    case 3
    then have ns: "\<not> (0xD800 \<le> cp \<and> cp \<le> 0xDFFF)"
      using assms by (auto simp add: encode_char_def split: if_splits)
    have "bs = [0xE0 + cp div 4096, 0x80 + (cp div 64) mod 64, 0x80 + cp mod 64]"
      using assms 3 ns by (auto simp add: encode_char_def)
    then show ?thesis using enc3 [OF 3 ns, of rest] by simp
  next
    case 4
    then have "bs = [0xF0 + cp div 262144, 0x80 + (cp div 4096) mod 64, 0x80 + (cp div 64) mod 64,
                0x80 + cp mod 64]"
      using assms by (auto simp add: encode_char_def)
    then show ?thesis using enc4 [OF 4 assms(2), of rest] by simp
  qed
qed

lemma utf8_scan_encoded:
  assumes "str_encode s = Inr bs" and "\<forall>cp\<in>set s. cp < 0x110000"
  shows "utf8_scan (bs @ rest) = map Decoded s @ utf8_scan rest"
  using assms
proof (induction s arbitrary: bs)
  case Nil
  then show ?case by simp
next
  case (Cons cp s)
  obtain b1 where e1: "encode_char cp = Inr b1"
    using Cons.prems(1) by (cases "encode_char cp") simp_all
  obtain b2 where e2: "str_encode s = Inr b2"
    using Cons.prems(1) e1 by (cases "str_encode s") simp_all
  have bs: "bs = b1 @ b2" using Cons.prems(1) e1 e2 by simp
  have "cp < 0x110000" using Cons.prems(2) by simp
  then obtain b b' where n: "b1 = b # b'" "utf8_next b (b' @ b2 @ rest) = (Decoded cp, b2 @ rest)"
    using utf8_next_encode_char [OF e1, of "b2 @ rest"] by blast
  have "utf8_scan (b2 @ rest) = map Decoded s @ utf8_scan rest"
    using Cons.IH [OF e2] Cons.prems(2) by simp
  then show ?case using bs n by simp
qed

lemma item_text_decoded [simp]: "concat (map (item_text \<circ> Decoded) s) = s"
  by (induction s) (simp_all add: item_text_def)

lemma splitlines_from_line:
  assumes "\<forall>c\<in>set l. \<not> line_boundary c"
  shows "splitlines_from acc (l @ 13 # 10 # rest) = (acc @ l) # splitlines_from [] rest"
  using assms
proof (induction l arbitrary: acc)
  case Nil
  then show ?case by simp
next
  case (Cons c l)
  then have "\<not> line_boundary c" "c \<noteq> 13" by (auto simp add: line_boundary_def)
  then show ?case using Cons by simp
qed

lemma splitlines_from_wire:
  assumes "\<forall>l\<in>set ls. \<forall>c\<in>set l. \<not> line_boundary c"
  shows "splitlines_from [] (wire ls) = ls"
  using assms
proof (induction ls)
  case Nil
  then show ?case by (simp add: wire_def)
next
  case (Cons l ls)
  have "wire (l # ls) = l @ 13 # 10 # wire ls" by (simp add: wire_def)
  then show ?case using Cons by (simp add: splitlines_from_line)
qed

lemma splitlines_from_line_feed:
  "\<exists>front. splitlines_from acc (xs @ 10 # rest) = front @ splitlines_from [] rest"
proof (induction "length xs" arbitrary: xs acc rule: less_induct)
  case less
  show ?case
  proof (cases xs)
    case Nil
    then have "splitlines_from acc (xs @ 10 # rest) = [acc] @ splitlines_from [] rest"
      by (simp add: line_boundary_def)
    then show ?thesis by blast
  next
    case c: (Cons c cs)
    show ?thesis
    proof (cases "c = 13")
      case True
      show ?thesis
      proof (cases cs)
        case Nil
        then have "splitlines_from acc (xs @ 10 # rest) = [acc] @ splitlines_from [] rest"
          using c True by simp
        then show ?thesis by blast
      next
        case d: (Cons d ds)
        show ?thesis
        proof (cases "d = 10")
          case True
          obtain front where "splitlines_from [] (ds @ 10 # rest) = front @ splitlines_from [] rest"
            using less [of ds "[]"] c d by auto
          then have "splitlines_from acc (xs @ 10 # rest) = (acc # front) @ splitlines_from [] rest"
            using c d \<open>c = 13\<close> True by simp
          then show ?thesis by blast
        next
          case False
          obtain front where "splitlines_from [] (cs @ 10 # rest) = front @ splitlines_from [] rest"
            using less [of cs "[]"] c by auto
          then have "splitlines_from acc (xs @ 10 # rest) = (acc # front) @ splitlines_from [] rest"
            using c d \<open>c = 13\<close> False by simp
          then show ?thesis by blast
        qed
      qed
    next
      case False
      show ?thesis
      proof (cases "line_boundary c")
        case True
        obtain front where "splitlines_from [] (cs @ 10 # rest) = front @ splitlines_from [] rest"
          using less [of cs "[]"] c by auto
        then have "splitlines_from acc (xs @ 10 # rest) = (acc # front) @ splitlines_from [] rest"
          using c False True by simp
        then show ?thesis by blast
      next
        case nb: False
        obtain front where "splitlines_from (acc @ [c]) (cs @ 10 # rest) = front @ splitlines_from [] rest"
          using less [of cs "acc @ [c]"] c by auto
        then have "splitlines_from acc (xs @ 10 # rest) = front @ splitlines_from [] rest"
          using c False nb by simp
        then show ?thesis by blast
      qed
    qed
  qed
qed

lemma dispatched_prefix:
  "\<exists>rest. ms = dispatched message_dispatching ms c @ rest"
proof (induction ms arbitrary: c)
  case Nil
  then show ?case by simp
next
  case (Cons m ms)
  let ?c = "logging DEBUG (ascii ''Incoming message: '' @ m) c"
  obtain r c' where s: "message_dispatching m ?c = (r, c')" by (cases "message_dispatching m ?c")
  show ?case
  proof (cases r)
    case None
    obtain rest where "ms = dispatched message_dispatching ms c' @ rest"
      using Cons.IH by blast
    then have "m # ms = dispatched message_dispatching (m # ms) c @ rest"
      using s None by (simp del: ascii_simps)
    then show ?thesis by blast
  next
    case (Some e)
    then have "m # ms = dispatched message_dispatching (m # ms) c @ ms"
      using s by (simp del: ascii_simps)
    then show ?thesis by blast
  qed
qed

lemma dispatched_all:
  "fst (dispatch_lines message_dispatching ms c) = None \<Longrightarrow> dispatched message_dispatching ms c = ms"
proof (induction ms arbitrary: c)
  case Nil
  then show ?case by simp
next
  case (Cons m ms)
  let ?c = "logging DEBUG (ascii ''Incoming message: '' @ m) c"
  obtain r c' where s: "message_dispatching m ?c = (r, c')" by (cases "message_dispatching m ?c")
  show ?case
  proof (cases r)
    case None
    then have "fst (dispatch_lines message_dispatching ms c') = None"
      using Cons.prems s by (simp del: ascii_simps)
    then have "dispatched message_dispatching ms c' = ms" by (rule Cons.IH)
    then show ?thesis using s None by (simp del: ascii_simps)
  next
    case (Some e)
    then show ?thesis using Cons.prems s by (simp del: ascii_simps)
  qed
qed

lemma bytes_decode_after:
  "bytes_decode decoding_error_handler data c = (Inr (decoded_text data), after_decoding data c)"
  by (simp add: bytes_decode_handler after_decoding_def)

lemma data_received_lines:
  "data_received message_dispatching data c
     = (case dispatch_lines message_dispatching (splitlines (decoded_text data)) (after_decoding data c) of
          (None, c2) \<Rightarrow> c2
        | (Some e, c2) \<Rightarrow> unhandled_exception c2)"
  by (simp add: data_received_def bytes_decode_after)




end
